theory Spec2Isabelle
  imports Complex_Main "HOL-Library.Log_Nat"
begin

section \<open>Python values and errors\<close>

text \<open>
  The model follows \<^verbatim>\<open>src/two_heads/ImagePairOverlapFunctionAngleOrientationSequence.py\<close>.
  Every exception the class can raise is a value of \<open>error\<close>; a computation that may raise
  returns \<open>error + 'a\<close> with \<open>Inl\<close> for the exception. \<open>IOError\<close> carries the path that could
  not be opened, \<open>Exception\<close> carries the message built by the source.
\<close>

datatype error =
    IOError string
  | Exception string
  | IndexError
  | TypeError
  | ValueError
  | ZeroDivisionError
  | OverflowError
  | AttributeError

fun is_IOError :: "error \<Rightarrow> bool" where
  "is_IOError (IOError m) = True"
| "is_IOError e = False"

fun bind_err :: "error + 'a \<Rightarrow> ('a \<Rightarrow> error + 'b) \<Rightarrow> error + 'b" where
  "bind_err (Inl e) f = Inl e"
| "bind_err (Inr v) f = f v"

text \<open>
  \<open>xs[i]\<close> for an index that is never negative at its call sites (a \<open>range\<close> variable or a
  product of such): out of range raises IndexError.
\<close>

definition py_index :: "'a list \<Rightarrow> nat \<Rightarrow> error + 'a" where
  "py_index xs i = (if i < length xs then Inr (xs ! i) else Inl IndexError)"

text \<open>\<open>xs[a:b]\<close> for bounds that are never negative: clipped to the list, empty when \<open>b \<le> a\<close>.\<close>

definition slice :: "'a list \<Rightarrow> nat \<Rightarrow> nat \<Rightarrow> 'a list" where
  "slice xs a b = take (b - a) (drop a xs)"

text \<open>
  A floating-point value that is read from an array: a finite one is the rational it
  denotes. \<open>int(x)\<close> truncates a finite value towards zero, raises ValueError for NaN and
  OverflowError for an infinity.
\<close>

datatype pyfloat = Finite rat | NaN | PosInf | NegInf

fun py_int :: "pyfloat \<Rightarrow> error + int" where
  "py_int (Finite q) = Inr (if 0 \<le> q then \<lfloor>q\<rfloor> else \<lceil>q\<rceil>)"
| "py_int NaN = Inl ValueError"
| "py_int PosInf = Inl OverflowError"
| "py_int NegInf = Inl OverflowError"

section \<open>Double-precision arithmetic\<close>

text \<open>
  Python floats are IEEE 754 binary64 numbers and every operation rounds its exact result
  to the nearest of them, ties to the even significand. \<open>round_half_even\<close> rounds a
  rational to an integer in that way, \<open>ilog2 q\<close> is the exponent \<open>e\<close> of a positive \<open>q\<close>, with
  \<open>2^e \<le> q < 2^(e+1)\<close>, and \<open>round_double q\<close> rounds \<open>q\<close> to a multiple of the unit in the last
  place \<open>2^(e - 52)\<close>; the exponent is not taken below \<open>-1022\<close>, which gives the subnormal
  numbers their fixed spacing. A result of \<open>2^1024\<close> or more is an overflow, which the
  callers check.
\<close>

definition round_half_even :: "rat \<Rightarrow> int" where
  "round_half_even q =
     (let r = \<lfloor>q\<rfloor>; d = q - of_int r
      in if d < 1 / 2 then r else if 1 / 2 < d then r + 1 else if even r then r else r + 1)"

definition ilog2 :: "rat \<Rightarrow> int" where
  "ilog2 q =
     (let (a, b) = quotient_of q; e = bitlen a - bitlen b
      in if power_int 2 e \<le> q then e else e - 1)"

definition round_double :: "rat \<Rightarrow> rat" where
  "round_double q =
     (if q = 0 then 0
      else (let e = max (ilog2 \<bar>q\<bar>) (- 1022); u = power_int 2 (e - 52)
            in sgn q * of_int (round_half_even (\<bar>q\<bar> / u)) * u))"

text \<open>
  The conversion of a Python integer that is not negative to a float, \<open>float(k)\<close> or the
  implicit one of \<open>k / x\<close>: OverflowError when the rounded value is out of range.
\<close>

definition py_float :: "nat \<Rightarrow> error + rat" where
  "py_float k =
     (let r = round_double (of_nat k)
      in if power_int 2 1024 \<le> r then Inl OverflowError else Inr r)"

text \<open>
  \<open>a[k] = v\<close> on a one-dimensional numpy array with an integer index: an index in
  \<open>[-len, 0)\<close> counts from the end, anything outside \<open>[-len, len)\<close> raises IndexError.
\<close>

definition np_set :: "rat list \<Rightarrow> int \<Rightarrow> rat \<Rightarrow> error + rat list" where
  "np_set a k v =
     (let m = int (length a) in
      if 0 \<le> k \<and> k < m then Inr (a[nat k := v])
      else if - m \<le> k \<and> k < 0 then Inr (a[nat (m + k) := v])
      else Inl IndexError)"

text \<open>
  \<open>np.hstack\<close> has a single positional parameter, the sequence of arrays to join. The
  argument of \<open>np_hstack\<close> is the list of positional arguments of the call: one argument that
  is a one-dimensional array comes back unchanged, any other number of positional
  arguments is a TypeError raised by the call itself.
\<close>

fun np_hstack :: "rat list list \<Rightarrow> error + rat list" where
  "np_hstack [tup] = Inr tup"
| "np_hstack args = Inl TypeError"

text \<open>\<open>os.path.join(a, *p)\<close> of posixpath.\<close>

fun path_join :: "string \<Rightarrow> string list \<Rightarrow> string" where
  "path_join path [] = path"
| "path_join path (b # p) =
     path_join
       (if b \<noteq> [] \<and> hd b = CHR ''/'' then b
        else if path = [] \<or> last path = CHR ''/'' then path @ b
        else path @ ''/'' @ b) p"

section \<open>The random module\<close>

text \<open>
  The generator of Python's \<open>random\<close> module is global state outside the class. It is
  modelled by the sequence \<open>raw\<close> of numbers it hands out and the position \<open>pos\<close> reached so
  far. \<open>random.randint(a, b)\<close> returns \<open>a + randbelow(b - a + 1)\<close>, a number \<open>N\<close> with
  \<open>a \<le> N \<le> b\<close>; the only call site is \<open>randint(0, width)\<close>, so \<open>a \<le> b\<close> always holds.
\<close>

record gen =
  raw :: "nat \<Rightarrow> nat"
  pos :: nat

definition randint :: "nat \<Rightarrow> nat \<Rightarrow> gen \<Rightarrow> nat \<times> gen" where
  "randint a b g = (a + raw g (pos g) mod (b - a + 1), g\<lparr>pos := pos g + 1\<rparr>)"

text \<open>\<open>[random.randint(0, width) for i in range(0, n)]\<close>\<close>

fun draw_shifts :: "nat \<Rightarrow> nat \<Rightarrow> gen \<Rightarrow> nat list \<times> gen" where
  "draw_shifts w 0 g = ([], g)"
| "draw_shifts w (Suc k) g =
     (let (r, g1) = randint 0 w g;
          (rs, g2) = draw_shifts w k g1
      in (r # rs, g2))"

section \<open>Library operations taken as parameters\<close>

text \<open>
  numpy's arrays and the file system are not part of the repository. The operations the
  class uses on them are the fields of \<open>py_env\<close>: \<open>'a\<close> is what \<open>np.load\<close> returns, \<open>'t\<close> is a
  four-dimensional tensor.
  \<^item> \<open>np_load f\<close>: \<open>np.load(f)\<close>;
  \<^item> \<open>np_zeros size h w c\<close>: \<open>np.zeros((size, h, w, c))\<close>;
  \<^item> \<open>setitem x i sel img\<close>: \<open>x[i, :, :, sel] = img\<close>, where \<open>sel\<close> is one channel or a
    channel range;
  \<^item> \<open>np_roll x i shift\<close>: \<open>x[i, :, :, :] = np.roll(x[i, :, :, :], shift, axis=1)\<close>;
  \<^item> \<open>random_seed k\<close>: the generator state after \<open>random.seed(k)\<close>.
\<close>

datatype chan_sel = Chan nat | ChanRange nat nat

record ('a, 't) py_env =
  np_load :: "string \<Rightarrow> error + 'a"
  np_zeros :: "nat \<Rightarrow> nat \<Rightarrow> nat \<Rightarrow> nat \<Rightarrow> 't"
  setitem :: "'t \<Rightarrow> nat \<Rightarrow> chan_sel \<Rightarrow> 'a \<Rightarrow> error + 't"
  np_roll :: "'t \<Rightarrow> nat \<Rightarrow> nat \<Rightarrow> 't"
  random_seed :: "nat \<Rightarrow> gen"

section \<open>The sequence object\<close>

text \<open>
  The attributes of \<open>ImagePairOverlapFunctionAngleOrientationSequence\<close>; \<open>n_pairs\<close> is
  \<open>self.n\<close>. \<open>random_rotate\<close> is \<open>None\<close> while the attribute has not been assigned.
  Sizes and counts are natural numbers, the rotation mode is an integer, and the label
  arrays are flat lists. The overlaps and function angles are only copied, and finite
  values (rationals) stand for them; the orientations are cast by \<open>int\<close>, which raises for
  NaN and the infinities, so that they are \<open>pyfloat\<close> values.
\<close>

record seq =
  image_path :: string
  batch_size :: nat
  imgfilenames1 :: "string list"
  imgfilenames2 :: "string list"
  dir1 :: "string list"
  dir2 :: "string list"
  overlap :: "rat list"
  function_angle :: "rat list"
  orientation :: "pyfloat list"
  network_output_size :: nat
  n_pairs :: nat
  height :: nat
  width :: nat
  no_channels :: nat
  use_depth :: bool
  use_normals :: bool
  use_class_probabilities :: bool
  use_class_probabilities_pca :: bool
  use_intensity :: bool
  rotate_data :: int
  do_rotation :: bool
  random_rotate :: "nat list option"

text \<open>\<open>__init__\<close>: the arguments in the order of the source, then the global generator.\<close>

definition init ::
  "('a, 't) py_env \<Rightarrow> string \<Rightarrow> string list \<Rightarrow> string list \<Rightarrow> string list \<Rightarrow> string list \<Rightarrow>
   rat list \<Rightarrow> rat list \<Rightarrow> pyfloat list \<Rightarrow> nat \<Rightarrow> nat \<Rightarrow> nat \<Rightarrow> nat \<Rightarrow> nat \<Rightarrow>
   bool \<Rightarrow> bool \<Rightarrow> bool \<Rightarrow> bool \<Rightarrow> bool \<Rightarrow> int \<Rightarrow> gen \<Rightarrow> seq \<times> gen" where
  "init np image_path' imgfilenames1' imgfilenames2' dir1' dir2' overlap' function_angle'
        orientation' network_output_size' batch_size' height' width' no_channels'
        use_depth' use_normals' use_class_probabilities' use_class_probabilities_pca'
        use_intensity' rotate_data' g =
     (let s = \<lparr> image_path = image_path',
                batch_size = batch_size',
                imgfilenames1 = imgfilenames1',
                imgfilenames2 = imgfilenames2',
                dir1 = dir1',
                dir2 = dir2',
                overlap = overlap',
                function_angle = function_angle',
                orientation = orientation',
                network_output_size = network_output_size',
                n_pairs = length overlap',
                height = height',
                width = width',
                no_channels = no_channels',
                use_depth = use_depth',
                use_normals = use_normals',
                use_class_probabilities = use_class_probabilities',
                use_class_probabilities_pca = use_class_probabilities_pca',
                use_intensity = use_intensity',
                rotate_data = rotate_data',
                do_rotation = False,
                random_rotate = None \<rparr>
      in if 0 < rotate_data s then
           (let (rr, g1) = draw_shifts (width s) (n_pairs s) (random_seed np 1234)
            in (s\<lparr>do_rotation := True, random_rotate := Some rr\<rparr>, g1))
         else (s, g))"

text \<open>
  \<open>__len__\<close>: \<open>int(np.ceil(self.n / float(self.batch_size)))\<close>. The batch size is converted
  first, then the division converts \<open>self.n\<close>, raises ZeroDivisionError for a zero divisor
  and rounds the quotient to a double; the ceiling of a double and its conversion to an
  integer are exact.
\<close>

definition len :: "seq \<Rightarrow> error + nat" where
  "len s =
     bind_err (py_float (batch_size s)) (\<lambda>b.
     bind_err (py_float (n_pairs s)) (\<lambda>a.
       if b = 0 then Inl ZeroDivisionError
       else Inr (nat \<lceil>round_double (a / b)\<rceil>)))"

section \<open>Channel assembly: prepareOneInput\<close>

text \<open>\<open>os.path.join(self.image_path, dir_f1[i], sub, batch_f1[i] + ext)\<close>\<close>

definition file_path ::
  "seq \<Rightarrow> string list \<Rightarrow> string list \<Rightarrow> nat \<Rightarrow> string \<Rightarrow> string \<Rightarrow> error + string" where
  "file_path s dir_f1 batch_f1 i sub ext =
     bind_err (py_index dir_f1 i) (\<lambda>d.
     bind_err (py_index batch_f1 i) (\<lambda>b.
       Inr (path_join (image_path s) [d, sub, b @ ext])))"

text \<open>
  The depth block (source lines 147-156): an IOError of the load is replaced by an
  Exception whose message ends with the path.
\<close>

definition load_depth ::
  "('a, 't) py_env \<Rightarrow> seq \<Rightarrow> 't \<Rightarrow> nat \<Rightarrow> string list \<Rightarrow> string list \<Rightarrow> nat \<Rightarrow> error + ('t \<times> nat)" where
  "load_depth np s x1 i batch_f1 dir_f1 channelidx =
     bind_err (file_path s dir_f1 batch_f1 i ''depth'' ''.npy'') (\<lambda>f.
     bind_err (case np_load np f of
                 Inl e \<Rightarrow> if is_IOError e
                          then Inl (Exception (''Could not read depth image '' @ f))
                          else Inl e
               | Inr img1 \<Rightarrow> Inr img1) (\<lambda>img1.
     bind_err (setitem np x1 i (Chan channelidx) img1) (\<lambda>x.
       Inr (x, channelidx + 1))))"

text \<open>The normals block (source lines 158-167).\<close>

definition load_normals ::
  "('a, 't) py_env \<Rightarrow> seq \<Rightarrow> 't \<Rightarrow> nat \<Rightarrow> string list \<Rightarrow> string list \<Rightarrow> nat \<Rightarrow> error + ('t \<times> nat)" where
  "load_normals np s x1 i batch_f1 dir_f1 channelidx =
     bind_err (file_path s dir_f1 batch_f1 i ''normal'' ''.npy'') (\<lambda>f.
     bind_err (case np_load np f of
                 Inl e \<Rightarrow> if is_IOError e
                          then Inl (Exception (''Could not read normal image '' @ f))
                          else Inl e
               | Inr img1 \<Rightarrow> Inr img1) (\<lambda>img1.
     bind_err (setitem np x1 i (ChanRange channelidx (channelidx + 3)) img1) (\<lambda>x.
       Inr (x, channelidx + 3))))"

text \<open>
  The class-probability block (source lines 169-199). The \<open>try\<close> holds the load and the
  write; an IOError raised inside it leads to the \<open>.npz\<close> path, whose load and write are
  outside any handler.
\<close>

definition load_probabilities ::
  "('a, 't) py_env \<Rightarrow> seq \<Rightarrow> 't \<Rightarrow> nat \<Rightarrow> string list \<Rightarrow> string list \<Rightarrow> nat \<Rightarrow> error + ('t \<times> nat)" where
  "load_probabilities np s x1 i batch_f1 dir_f1 channelidx =
     (let sub = (if use_class_probabilities_pca s then ''probability_pca'' else ''probability'');
          k = (if use_class_probabilities_pca s then 3 else 20)
      in bind_err (file_path s dir_f1 batch_f1 i sub ''.npy'') (\<lambda>f.
           case bind_err (np_load np f) (\<lambda>img1.
                  setitem np x1 i (ChanRange channelidx (channelidx + k)) img1) of
             Inr x \<Rightarrow> Inr (x, channelidx + k)
           | Inl e \<Rightarrow>
               if is_IOError e then
                 bind_err (file_path s dir_f1 batch_f1 i sub ''.npz'') (\<lambda>f2.
                 bind_err (np_load np f2) (\<lambda>img1.
                 bind_err (setitem np x1 i (ChanRange channelidx (channelidx + k)) img1) (\<lambda>x.
                   Inr (x, channelidx + k))))
               else Inl e))"

text \<open>The intensity block (source lines 201-211): only the load is inside the \<open>try\<close>.\<close>

definition load_intensity ::
  "('a, 't) py_env \<Rightarrow> seq \<Rightarrow> 't \<Rightarrow> nat \<Rightarrow> string list \<Rightarrow> string list \<Rightarrow> nat \<Rightarrow> error + ('t \<times> nat)" where
  "load_intensity np s x1 i batch_f1 dir_f1 channelidx =
     bind_err (file_path s dir_f1 batch_f1 i ''intensity'' ''.npy'') (\<lambda>f.
     bind_err (case np_load np f of
                 Inl e \<Rightarrow> if is_IOError e then
                            bind_err (file_path s dir_f1 batch_f1 i ''intensity'' ''.npz'') (\<lambda>f2.
                              np_load np f2)
                          else Inl e
               | Inr img1 \<Rightarrow> Inr img1) (\<lambda>img1.
     bind_err (setitem np x1 i (Chan channelidx) img1) (\<lambda>x.
       Inr (x, channelidx + 1))))"

text \<open>
  \<open>self.random_rotate[totalidx]\<close>. In \<open>prepareOneInput\<close> below, \<open>rotating\<close> is the source's
  parameter \<open>rotate_data\<close> (a boolean there, unlike the attribute of the same name).
\<close>

definition lookup_shift :: "seq \<Rightarrow> nat \<Rightarrow> error + nat" where
  "lookup_shift s totalidx =
     (case random_rotate s of
        None \<Rightarrow> Inl AttributeError
      | Some rr \<Rightarrow> py_index rr totalidx)"

definition prepareOneInput ::
  "('a, 't) py_env \<Rightarrow> seq \<Rightarrow> 't \<Rightarrow> nat \<Rightarrow> string list \<Rightarrow> string list \<Rightarrow> nat \<Rightarrow> bool \<Rightarrow> error + 't" where
  "prepareOneInput np s x1 i batch_f1 dir_f1 totalidx rotating =
     bind_err (if use_depth s then load_depth np s x1 i batch_f1 dir_f1 0
               else Inr (x1, 0)) (\<lambda>(xa, ca).
     bind_err (if use_normals s then load_normals np s xa i batch_f1 dir_f1 ca
               else Inr (xa, ca)) (\<lambda>(xb, cb).
     bind_err (if use_class_probabilities s then load_probabilities np s xb i batch_f1 dir_f1 cb
               else Inr (xb, cb)) (\<lambda>(xc, cc).
     bind_err (if use_intensity s then load_intensity np s xc i batch_f1 dir_f1 cc
               else Inr (xc, cc)) (\<lambda>(xd, cd).
     if rotating then
       bind_err (lookup_shift s totalidx) (\<lambda>shift. Inr (np_roll np xd i shift))
     else Inr xd))))"

section \<open>Batches: getitem\<close>

text \<open>
  Source lines 98-102: the upper slice bound and the batch size. The size is an integer:
  it is negative for an index beyond the last batch.
\<close>

definition bounds :: "seq \<Rightarrow> nat \<Rightarrow> nat \<times> int" where
  "bounds s idx =
     (let maxidx = (idx + 1) * batch_size s
      in if maxidx > n_pairs s
         then (n_pairs s, int (n_pairs s) - int (idx * batch_size s))
         else (maxidx, int (batch_size s)))"

text \<open>
  The loop of source lines 112-115 over the local offsets. The second tensor exists
  exactly when \<open>self.imgfilenames2\<close> is non-empty. The total index handed to the second
  leg is \<open>idx * size + i\<close>, as the source writes it.
\<close>

fun fill_legs ::
  "('a, 't) py_env \<Rightarrow> seq \<Rightarrow> nat \<Rightarrow> nat \<Rightarrow> string list \<Rightarrow> string list \<Rightarrow> string list \<Rightarrow> string list \<Rightarrow>
   nat list \<Rightarrow> 't \<times> 't option \<Rightarrow> error + ('t \<times> 't option)" where
  "fill_legs np s idx size' batch_f1 dir_f1 batch_f2 dir_f2 [] xs = Inr xs"
| "fill_legs np s idx size' batch_f1 dir_f1 batch_f2 dir_f2 (i # rest) (x1, x2) =
     bind_err (prepareOneInput np s x1 i batch_f1 dir_f1 0 False) (\<lambda>x1'.
       case x2 of
         None \<Rightarrow> fill_legs np s idx size' batch_f1 dir_f1 batch_f2 dir_f2 rest (x1', None)
       | Some t2 \<Rightarrow>
           bind_err (prepareOneInput np s t2 i batch_f2 dir_f2 (idx * size' + i) (do_rotation s))
             (\<lambda>t2'. fill_legs np s idx size' batch_f1 dir_f1 batch_f2 dir_f2 rest (x1', Some t2')))"

text \<open>
  The body of the loop of source lines 122-125 for one \<open>idx\<close> of \<open>range(len(y_overlap))\<close>.
  The right-hand side \<open>y_function_angle[idx]\<close> is evaluated before the subscript
  \<open>int(y_orientation[idx])\<close>, and the cast before the write.
\<close>

definition target_item :: "nat \<Rightarrow> rat list \<Rightarrow> pyfloat list \<Rightarrow> nat \<Rightarrow> error + rat list" where
  "target_item M y_function_angle y_orientation k =
     bind_err (py_index y_function_angle k) (\<lambda>v.
     bind_err (py_index y_orientation k) (\<lambda>ori.
     bind_err (py_int ori) (\<lambda>p.
       np_set (replicate M 0) p v)))"

fun targets_loop ::
  "nat \<Rightarrow> rat list \<Rightarrow> pyfloat list \<Rightarrow> nat list \<Rightarrow> rat list list \<Rightarrow> error + rat list list" where
  "targets_loop M y_function_angle y_orientation [] y = Inr y"
| "targets_loop M y_function_angle y_orientation (k # ks) y =
     bind_err (target_item M y_function_angle y_orientation k) (\<lambda>y_item.
       targets_loop M y_function_angle y_orientation ks (y @ [y_item]))"

text \<open>What \<open>__getitem__\<close> returns: the list of input tensors and the targets.\<close>

datatype targets =
    Peaks "rat list list"
  | TwoHeads "rat list" "rat list list"

fun target_array :: "targets \<Rightarrow> rat list list" where
  "target_array (Peaks y) = y"
| "target_array (TwoHeads h y) = y"

datatype 't batch = Batch (inputs: "'t list") (targets: targets)

text \<open>Source lines 98-115: the slices of the file names and the two tensors.\<close>

definition batch_inputs :: "('a, 't) py_env \<Rightarrow> seq \<Rightarrow> nat \<Rightarrow> error + ('t \<times> 't option)" where
  "batch_inputs np s idx =
     (let (maxidx, size') = bounds s idx;
          lo = idx * batch_size s;
          batch_f1 = slice (imgfilenames1 s) lo maxidx;
          dir_f1 = slice (dir1 s) lo maxidx;
          batch_f2 = slice (imgfilenames2 s) lo maxidx;
          dir_f2 = slice (dir2 s) lo maxidx
      in if size' < 0 then Inl ValueError
         else
           (let x1 = np_zeros np (nat size') (height s) (width s) (no_channels s);
                x2 = (if imgfilenames2 s \<noteq> []
                      then Some (np_zeros np (nat size') (height s) (width s) (no_channels s))
                      else None)
            in fill_legs np s idx (nat size') batch_f1 dir_f1 batch_f2 dir_f2
                 [0..<nat size'] (x1, x2)))"

text \<open>Source lines 117-127: the label slices and the rows of \<open>y\<close>.\<close>

definition batch_targets :: "seq \<Rightarrow> nat \<Rightarrow> error + rat list list" where
  "batch_targets s idx =
     (let maxidx = fst (bounds s idx);
          lo = idx * batch_size s;
          y_overlap = slice (overlap s) lo maxidx;
          y_function_angle = slice (function_angle s) lo maxidx;
          y_orientation = slice (orientation s) lo maxidx
      in targets_loop (network_output_size s) y_function_angle y_orientation
           [0..<length y_overlap] [])"

text \<open>
  Source lines 98-132, after the schedule has been looked after. The return statement of
  the two-leg branch calls \<open>np.hstack(y_overlap, y_function_angle)\<close> with two positional
  arguments.
\<close>

definition getitem_body :: "('a, 't) py_env \<Rightarrow> seq \<Rightarrow> nat \<Rightarrow> error + 't batch" where
  "getitem_body np s idx =
     bind_err (batch_inputs np s idx) (\<lambda>(x1, x2).
     bind_err (batch_targets s idx) (\<lambda>y.
       case x2 of
         Some t2 \<Rightarrow>
           (let maxidx = fst (bounds s idx);
                lo = idx * batch_size s;
                y_overlap = slice (overlap s) lo maxidx;
                y_function_angle = slice (function_angle s) lo maxidx
            in bind_err (np_hstack [y_overlap, y_function_angle]) (\<lambda>h.
                 Inr (Batch [x1, t2] (TwoHeads h y))))
       | None \<Rightarrow> Inr (Batch [x1] (Peaks y))))"

text \<open>
  \<open>__getitem__\<close> for a batch index that is not negative: the result, the object and the
  global generator after the call. The schedule is replaced before anything can raise,
  so the new object and generator are returned with an error as well.
\<close>

definition getitem ::
  "('a, 't) py_env \<Rightarrow> seq \<Rightarrow> gen \<Rightarrow> nat \<Rightarrow> (error + 't batch) \<times> seq \<times> gen" where
  "getitem np s g idx =
     (let (s', g') =
            (if idx = 0 \<and> rotate_data s = 2
             then (let (rr, g1) = draw_shifts (width s) (n_pairs s) g
                   in (s\<lparr>random_rotate := Some rr\<rparr>, g1))
             else (s, g))
      in (getitem_body np s' idx, s', g'))"

text \<open>A caller that requests the batches \<open>idxs\<close> one after the other, whatever they return.\<close>

fun run_batches :: "('a, 't) py_env \<Rightarrow> seq \<times> gen \<Rightarrow> nat list \<Rightarrow> seq \<times> gen" where
  "run_batches np sg [] = sg"
| "run_batches np sg (idx # idxs) =
     run_batches np (snd (getitem np (fst sg) (snd sg) idx)) idxs"

section \<open>A recording numpy for concrete runs\<close>

text \<open>
  An instance of the library operations for evaluating the class on concrete inputs:
  the files are an association list from path to content, a tensor is its shape together
  with the writes and rolls applied to it in order, and the generator seeded with any
  number hands out the numbers of \<open>rs\<close> cyclically.
\<close>

datatype 'a wr = Write nat chan_sel 'a | Roll nat nat

type_synonym 'a tensor = "nat list \<times> 'a wr list"

definition rec_env :: "(string \<times> 'a) list \<Rightarrow> nat list \<Rightarrow> ('a, 'a tensor) py_env" where
  "rec_env files rs =
     \<lparr> np_load = (\<lambda>f. case map_of files f of None \<Rightarrow> Inl (IOError f) | Some a \<Rightarrow> Inr a),
       np_zeros = (\<lambda>size' h w c. ([size', h, w, c], [])),
       setitem = (\<lambda>x i sel img. Inr (fst x, snd x @ [Write i sel img])),
       np_roll = (\<lambda>x i shift. (fst x, snd x @ [Roll i shift])),
       random_seed = (\<lambda>k. \<lparr> raw = (\<lambda>j. rs ! (j mod length rs)), pos = 0 \<rparr>) \<rparr>"

section \<open>Concrete inputs\<close>

text \<open>
  Five pairs in batches of two, images of height 1 and width 4 with depth and normals.
  The generator hands out 3, 0, 0, 0, 4 after seeding, which are the first five values of
  \<open>random.randint(0, 4)\<close> after \<open>random.seed(1234)\<close> in CPython 3.
\<close>

definition ex_files :: "(string \<times> string) list" where
  "ex_files =
     concat (map (\<lambda>nm. [(''/d/07/depth/'' @ nm @ ''.npy'', ''depth '' @ nm),
                          (''/d/07/normal/'' @ nm @ ''.npy'', ''normal '' @ nm)])
       [''a0'', ''a1'', ''a2'', ''a3'', ''a4'', ''b0'', ''b1'', ''b2'', ''b3'', ''b4''])"

definition ex_env :: "(string, string tensor) py_env" where
  "ex_env = rec_env ex_files [3, 0, 0, 0, 4]"

definition ex_gen :: gen where
  "ex_gen = \<lparr> raw = (\<lambda>j. 7 * j + 2), pos = 0 \<rparr>"

text \<open>Single-leg mode without rotation; the second pair has orientation \<open>-1\<close>, the fourth 12.\<close>

definition ex_single :: seq where
  "ex_single =
     fst (init ex_env ''/d'' [''a0'', ''a1'', ''a2'', ''a3'', ''a4''] []
            [''07'', ''07'', ''07'', ''07'', ''07''] []
            [1/2, 1/4, 0, 1, 3/4] [7/10, 1/5, 3/10, 2/5, 9/10]
            [Finite (7/2), Finite (-1), Finite 0, Finite 12, Finite 9]
            10 2 1 4 4 True True False False False 0 ex_gen)"

text \<open>Two-leg mode with the rotation schedule of mode \<open>rd\<close>.\<close>

definition ex_pair :: "int \<Rightarrow> seq" where
  "ex_pair rd =
     fst (init ex_env ''/d'' [''a0'', ''a1'', ''a2'', ''a3'', ''a4'']
            [''b0'', ''b1'', ''b2'', ''b3'', ''b4'']
            [''07'', ''07'', ''07'', ''07'', ''07''] [''07'', ''07'', ''07'', ''07'', ''07'']
            [1/2, 1/4, 0, 1, 3/4] [7/10, 1/5, 3/10, 2/5, 9/10]
            [Finite (7/2), Finite 1, Finite 2, Finite 0, Finite 9]
            10 2 1 4 4 True True False False False rd ex_gen)"

text \<open>
  Files for the channel assembly. \<open>np.load\<close> decides by the content of a file, not by its
  name: a file in the array format gives an array, a zip archive gives an archive object,
  and writing an archive object into a tensor raises ValueError. \<open>npz_env\<close> is the
  recording numpy with that write.
\<close>

datatype loaded = Array string | Archive string

definition npz_env :: "(string \<times> loaded) list \<Rightarrow> nat list \<Rightarrow> (loaded, loaded tensor) py_env" where
  "npz_env files rs =
     (rec_env files rs)
       \<lparr> setitem := (\<lambda>x i sel img.
            case img of
              Array a \<Rightarrow> Inr (fst x, snd x @ [Write i sel img])
            | Archive a \<Rightarrow> Inl ValueError) \<rparr>"

text \<open>
  Pair \<open>a0\<close> has its depth image only under the \<open>.npz\<close> name, \<open>a1\<close> its normals only under
  the \<open>.npz\<close> name, \<open>a2\<close> its class probabilities and intensity only under the \<open>.npz\<close> name
  (in the array format), \<open>a3\<close> has every file under both names, and \<open>a4\<close> has its class
  probabilities only as a zip archive. \<open>ex_full\<close> uses all four modalities in 25
  channels, \<open>ex_miss\<close> is the batch of \<open>a3\<close> and \<open>a0\<close>.
\<close>

definition ex_files2 :: "(string \<times> loaded) list" where
  "ex_files2 =
     [(''/d/07/depth/a0.npz'', Array ''depth a0 (npz)''),
      (''/d/07/depth/a1.npy'', Array ''depth a1''),
      (''/d/07/normal/a1.npz'', Array ''normal a1 (npz)''),
      (''/d/07/depth/a2.npy'', Array ''depth a2''),
      (''/d/07/normal/a2.npy'', Array ''normal a2''),
      (''/d/07/probability/a2.npz'', Array ''probability a2 (npz)''),
      (''/d/07/intensity/a2.npz'', Array ''intensity a2 (npz)''),
      (''/d/07/depth/a3.npy'', Array ''depth a3''),
      (''/d/07/normal/a3.npy'', Array ''normal a3''),
      (''/d/07/probability/a3.npy'', Array ''probability a3''),
      (''/d/07/probability/a3.npz'', Archive ''probability a3 (npz)''),
      (''/d/07/intensity/a3.npy'', Array ''intensity a3''),
      (''/d/07/intensity/a3.npz'', Archive ''intensity a3 (npz)''),
      (''/d/07/depth/a4.npy'', Array ''depth a4''),
      (''/d/07/normal/a4.npy'', Array ''normal a4''),
      (''/d/07/probability/a4.npz'', Archive ''probability a4 (npz)'')]"

definition ex_env2 :: "(loaded, loaded tensor) py_env" where
  "ex_env2 = npz_env ex_files2 [3, 0, 0, 0, 4]"

definition ex_names :: "string list" where
  "ex_names = [''a0'', ''a1'', ''a2'', ''a3'', ''a4'']"

definition ex_dirs :: "string list" where
  "ex_dirs = [''07'', ''07'', ''07'', ''07'', ''07'']"

definition ex_full :: seq where
  "ex_full =
     fst (init ex_env2 ''/d'' ex_names [] ex_dirs []
            [1/2, 1/4, 0, 1, 3/4] [7/10, 1/5, 3/10, 2/5, 9/10]
            [Finite (7/2), Finite 1, Finite 2, Finite 0, Finite 9]
            10 5 1 4 25 True True True False True 0 ex_gen)"

definition ex_zero :: "loaded tensor" where
  "ex_zero = ([5, 1, 4, 25], [])"

definition ex_miss :: seq where
  "ex_miss =
     fst (init ex_env2 ''/d'' [''a3'', ''a0''] [] [''07'', ''07''] []
            [1/2, 1/4] [7/10, 1/5] [Finite (7/2), Finite 1]
            10 2 1 4 25 True True True False True 0 ex_gen)"

text \<open>
  An object over an overlap array of \<open>2^53 + 1\<close> elements (a broadcast view of one number
  has that size without the memory), in batches of one.
\<close>

definition ex_huge :: seq where
  "ex_huge =
     fst (init ex_env ''/d'' [] [] [] [] (replicate (2 ^ 53 + 1) 0) [] []
            10 1 1 4 4 True True False False False 0 ex_gen)"

text \<open>The first batch of \<open>ex_single\<close>.\<close>

definition ex_batch0 :: "string tensor batch" where
  "ex_batch0 =
     Batch
       [([2, 1, 4, 4],
         [Write 0 (Chan 0) ''depth a0'', Write 0 (ChanRange 1 4) ''normal a0'',
          Write 1 (Chan 0) ''depth a1'', Write 1 (ChanRange 1 4) ''normal a1''])]
       (Peaks
         [[0, 0, 0, 7 / 10, 0, 0, 0, 0, 0, 0],
          [0, 0, 0, 0, 0, 0, 0, 0, 0, 1 / 5]])"

section \<open>Rounding to double precision\<close>

lemma round_half_even_of_int [simp]: "round_half_even (of_int z) = z"
  by (simp add: round_half_even_def)

lemma round_half_even_ge:
  assumes "of_int a \<le> q"
  shows "a \<le> round_half_even q"
proof -
  have "a \<le> \<lfloor>q\<rfloor>" using assms by (simp add: le_floor_iff)
  then show ?thesis by (auto simp add: round_half_even_def Let_def)
qed

lemma round_half_even_le:
  assumes "q \<le> of_int b"
  shows "round_half_even q \<le> b"
proof (cases "q = of_int b")
  case True
  then show ?thesis by simp
next
  case False
  with assms have "q < of_int b" by simp
  then have "\<lfloor>q\<rfloor> < b" by (simp add: floor_less_iff)
  then show ?thesis by (auto simp add: round_half_even_def Let_def)
qed

lemma round_half_even_gt:
  assumes "of_int a + 1 / 2 < q"
  shows "a < round_half_even q"
proof -
  have "of_int a \<le> q" using assms by simp
  then have le: "a \<le> \<lfloor>q\<rfloor>" by (simp add: le_floor_iff)
  show ?thesis
  proof (cases "a = \<lfloor>q\<rfloor>")
    case True
    with assms have "1 / 2 < q - of_int \<lfloor>q\<rfloor>" by simp
    then show ?thesis using True by (simp add: round_half_even_def Let_def)
  next
    case False
    with le have "a < \<lfloor>q\<rfloor>" by simp
    then show ?thesis by (auto simp add: round_half_even_def Let_def)
  qed
qed

lemma pow2_int: "0 \<le> e \<Longrightarrow> (power_int 2 e :: rat) = of_int (2 ^ nat e)"
  by (simp add: power_int_def)

lemma pow2_less_iff: "(power_int 2 m :: rat) < power_int 2 n \<longleftrightarrow> m < n"
proof
  assume "m < n"
  then show "(power_int 2 m :: rat) < power_int 2 n" by (rule power_int_strict_increasing) simp
next
  assume l: "(power_int 2 m :: rat) < power_int 2 n"
  show "m < n"
  proof (rule ccontr)
    assume "\<not> m < n"
    then have "n \<le> m" by simp
    then have "(power_int 2 n :: rat) \<le> power_int 2 m" by (rule power_int_increasing) simp
    with l show False by simp
  qed
qed

lemma ilog2_bounds:
  assumes "0 < q"
  shows "power_int 2 (ilog2 q) \<le> q" and "q < power_int 2 (ilog2 q + 1)"
proof -
  obtain a b where ab: "quotient_of q = (a, b)" by (cases "quotient_of q")
  then have b: "0 < b" and q: "q = of_int a / of_int b"
    by (simp_all add: quotient_of_denom_pos quotient_of_div)
  from assms q b have a: "0 < a" by (simp add: zero_less_divide_iff)
  define la lb where "la = bitlen a" and "lb = bitlen b"
  from bitlen_bounds[OF a] have ba: "2 ^ nat (la - 1) \<le> a" "a < 2 ^ nat la" by (simp_all add: la_def)
  from bitlen_bounds[OF b] have bb: "2 ^ nat (lb - 1) \<le> b" "b < 2 ^ nat lb" by (simp_all add: lb_def)
  have la: "1 \<le> la" using a by (simp add: la_def bitlen_alt_def)
  have lb: "1 \<le> lb" using b by (simp add: lb_def bitlen_alt_def)
  have ra: "(power_int 2 (la - 1) :: rat) \<le> of_int a" "(of_int a :: rat) < power_int 2 la"
  proof -
    have "(of_int (2 ^ nat (la - 1)) :: rat) \<le> of_int a" using ba(1) by (simp only: of_int_le_iff)
    then show "(power_int 2 (la - 1) :: rat) \<le> of_int a" using la by (simp add: pow2_int)
    have "(of_int a :: rat) < of_int (2 ^ nat la)" using ba(2) by (simp only: of_int_less_iff)
    then show "(of_int a :: rat) < power_int 2 la" using la by (simp add: pow2_int)
  qed
  have rb: "(power_int 2 (lb - 1) :: rat) \<le> of_int b" "(of_int b :: rat) < power_int 2 lb"
  proof -
    have "(of_int (2 ^ nat (lb - 1)) :: rat) \<le> of_int b" using bb(1) by (simp only: of_int_le_iff)
    then show "(power_int 2 (lb - 1) :: rat) \<le> of_int b" using lb by (simp add: pow2_int)
    have "(of_int b :: rat) < of_int (2 ^ nat lb)" using bb(2) by (simp only: of_int_less_iff)
    then show "(of_int b :: rat) < power_int 2 lb" using lb by (simp add: pow2_int)
  qed
  have B: "(0::rat) < of_int b" using b by simp
  have lo: "(power_int 2 (la - lb - 1) :: rat) < q"
  proof -
    have "(power_int 2 (la - lb - 1) :: rat) * of_int b < power_int 2 (la - lb - 1) * power_int 2 lb"
      using rb(2) by (simp add: mult_strict_left_mono)
    also have "\<dots> = power_int 2 (la - 1)" by (simp flip: power_int_add)
    also have "\<dots> \<le> of_int a" by (rule ra(1))
    finally show ?thesis using B by (simp add: q pos_less_divide_eq)
  qed
  have hi: "q < (power_int 2 (la - lb + 1) :: rat)"
  proof -
    have "(of_int a :: rat) < power_int 2 la" by (rule ra(2))
    also have "\<dots> = power_int 2 (la - lb + 1) * power_int 2 (lb - 1)" by (simp flip: power_int_add)
    also have "\<dots> \<le> power_int 2 (la - lb + 1) * of_int b"
      using rb(1) by (simp add: mult_left_mono)
    finally show ?thesis using B by (simp add: q pos_divide_less_eq)
  qed
  have il: "ilog2 q = (if power_int 2 (la - lb) \<le> q then la - lb else la - lb - 1)"
    by (simp add: ilog2_def ab la_def lb_def Let_def)
  show "power_int 2 (ilog2 q) \<le> q" using lo by (simp add: il)
  show "q < power_int 2 (ilog2 q + 1)" using hi by (auto simp add: il)
qed

lemma ilog2_ge:
  assumes "0 < q" and "power_int 2 e \<le> q"
  shows "e \<le> ilog2 q"
proof -
  have "(power_int 2 e :: rat) < power_int 2 (ilog2 q + 1)"
    using assms(2) ilog2_bounds(2)[OF assms(1)] by simp
  then have "e < ilog2 q + 1" by (simp add: pow2_less_iff)
  then show ?thesis by simp
qed

lemma ilog2_less:
  assumes "0 < q" and "q < power_int 2 e"
  shows "ilog2 q < e"
proof -
  have "(power_int 2 (ilog2 q) :: rat) < power_int 2 e"
    using assms(2) ilog2_bounds(1)[OF assms(1)] by simp
  then show ?thesis by (simp add: pow2_less_iff)
qed

lemma round_double_pos:
  assumes "0 < q" and "- 1022 \<le> ilog2 q"
  shows "round_double q
           = of_int (round_half_even (q / power_int 2 (ilog2 q - 52))) * power_int 2 (ilog2 q - 52)"
  using assms by (simp add: round_double_def Let_def max_def)

lemma pow2_add: "(power_int 2 a :: rat) * power_int 2 b = power_int 2 (a + b)"
  by (simp add: power_int_add)

lemma round_double_pow2:
  assumes "0 < q" and "- 1022 \<le> ilog2 q" and "q = power_int 2 (ilog2 q)"
  shows "round_double q = q"
proof -
  define e where "e = ilog2 q"
  have "q / power_int 2 (e - 52) = power_int 2 e / power_int 2 (e - 52)"
    using assms(3) by (simp add: e_def)
  also have "\<dots> = power_int 2 (e - (e - 52))" by (simp add: power_int_diff)
  also have "\<dots> = of_int (2 ^ 52)" by simp
  finally have "round_half_even (q / power_int 2 (e - 52)) = 2 ^ 52"
    by (simp only: round_half_even_of_int)
  then have "round_double q = of_int (2 ^ 52) * power_int 2 (e - 52)"
    using round_double_pos[OF assms(1,2)] by (simp add: e_def)
  also have "(of_int (2 ^ 52) :: rat) = power_int 2 52" by simp
  also have "(power_int 2 52 :: rat) * power_int 2 (e - 52) = power_int 2 (52 + (e - 52))"
    by (simp only: pow2_add)
  also have "\<dots> = power_int 2 e" by simp
  finally show ?thesis using assms(3) by (simp add: e_def)
qed

lemma grid_unit:
  assumes "e \<le> 52"
  shows "(1 :: rat) / power_int 2 (e - 52) = of_int (2 ^ nat (52 - e))"
proof -
  have "(power_int 2 (e - 52) :: rat) * power_int 2 (52 - e) = power_int 2 ((e - 52) + (52 - e))"
    by (simp only: pow2_add)
  then have "(power_int 2 (e - 52) :: rat) * power_int 2 (52 - e) = 1" by simp
  moreover have "(0::rat) < power_int 2 (e - 52)" by simp
  ultimately have "(1 :: rat) / power_int 2 (e - 52) = power_int 2 (52 - e)"
    by (simp add: field_simps)
  also have "\<dots> = of_int (2 ^ nat (52 - e))" using assms by (simp add: pow2_int)
  finally show ?thesis .
qed

lemma ceiling_round_double_div:
  assumes n: "0 < n" "n \<le> 2 ^ 53" and b: "0 < b" "b \<le> 2 ^ 53"
  shows "\<lceil>round_double (of_nat n / of_nat b)\<rceil> = \<lceil>(of_nat n / of_nat b :: rat)\<rceil>"
proof -
  define q :: rat where "q = of_nat n / of_nat b"
  define e where "e = ilog2 q"
  define u :: rat where "u = power_int 2 (e - 52)"
  define k where "k = \<lceil>q\<rceil>"
  have B: "(0::rat) < of_nat b" using b(1) by simp
  have q0: "0 < q" using n(1) b(1) by (simp add: q_def)
  have u0: "0 < u" by (simp add: u_def)
  have qn: "q \<le> of_nat n"
  proof -
    have "(1::rat) \<le> of_nat b" using b(1) by simp
    then have "(of_nat n :: rat) * 1 \<le> of_nat n * of_nat b" by (intro mult_left_mono) simp_all
    then show ?thesis using B by (simp add: q_def pos_divide_le_eq)
  qed
  have n53: "(of_nat n :: rat) \<le> power_int 2 53"
  proof -
    have "(of_nat n :: rat) \<le> of_nat (2 ^ 53)" using n(2) by (simp only: of_nat_le_iff)
    then show ?thesis by simp
  qed
  have b53: "(of_nat b :: rat) \<le> power_int 2 53"
  proof -
    have "(of_nat b :: rat) \<le> of_nat (2 ^ 53)" using b(2) by (simp only: of_nat_le_iff)
    then show ?thesis by simp
  qed
  have "power_int 2 (- 53) \<le> q"
  proof -
    have "(1::rat) \<le> of_nat n" using n(1) by simp
    then have "1 / of_nat b \<le> q" using B by (simp add: q_def divide_right_mono)
    moreover have "(power_int 2 (- 53) :: rat) \<le> 1 / of_nat b"
    proof -
      have "(power_int 2 (- 53) :: rat) * of_nat b \<le> power_int 2 (- 53) * power_int 2 53"
        using b53 by (intro mult_left_mono) simp_all
      also have "\<dots> = 1" by (simp flip: power_int_add)
      finally show ?thesis using B by (simp add: pos_le_divide_eq)
    qed
    ultimately show ?thesis by simp
  qed
  from ilog2_ge[OF q0 this] have elo: "- 1022 \<le> e" by (simp add: e_def)
  have fl: "round_double q = of_int (round_half_even (q / u)) * u"
    using round_double_pos[OF q0] elo by (simp add: e_def u_def)
  have eq: "power_int 2 e \<le> q" using ilog2_bounds(1)[OF q0] by (simp add: e_def)
  show ?thesis
  proof (cases "q = power_int 2 e")
    case True
    then have "round_double q = q" using round_double_pow2[OF q0] elo by (simp add: e_def)
    then show ?thesis by (simp add: q_def)
  next
    case False
    with eq have es: "power_int 2 e < q" by simp
    have "q < power_int 2 53"
    proof (rule ccontr)
      assume "\<not> q < power_int 2 53"
      with qn n53 have q53: "q = power_int 2 53" by simp
      then have "53 \<le> e" using ilog2_ge[OF q0, of 53] by (simp add: e_def)
      then have "(power_int 2 53 :: rat) \<le> power_int 2 e" by (intro power_int_increasing) simp_all
      with es q53 show False by simp
    qed
    from ilog2_less[OF q0 this] have e52: "e \<le> 52" by (simp add: e_def)
    define w where "w = (2::int) ^ nat (52 - e)"
    have w: "1 / u = of_int w" using grid_unit[OF e52] by (simp add: u_def w_def)
    have w0: "0 < w" by (simp add: w_def)
    have "q / u = q * (1 / u)" by simp
    then have qu: "q / u = q * of_int w" by (simp only: w)
    have uw: "of_int w * u = 1" using w u0 by (simp add: field_simps)
    \<comment> \<open>the upper integer is on the grid\<close>
    have "q \<le> of_int k" by (simp add: k_def)
    then have "q * of_int w \<le> of_int (k * w)" using w0 by (simp add: mult_right_mono)
    then have "round_half_even (q / u) \<le> k * w" unfolding qu by (rule round_half_even_le)
    then have "(of_int (round_half_even (q / u)) :: rat) \<le> of_int (k * w)"
      by (simp only: of_int_le_iff)
    then have "of_int (round_half_even (q / u)) * u \<le> of_int (k * w) * u"
      using u0 by (simp add: mult_right_mono)
    also have "\<dots> = of_int k * (of_int w * u)" by simp
    also have "\<dots> = of_int k" by (simp add: uw)
    finally have up: "round_double q \<le> of_int k" by (simp add: fl)
    \<comment> \<open>the lower integer is more than half a unit away\<close>
    have kq: "of_int (k - 1) < q" using ceiling_correct[of q] by (simp add: k_def)
    have gap: "1 / of_nat b \<le> q - of_int (k - 1)"
    proof -
      from kq B have "of_int (k - 1) * (of_nat b :: rat) < of_nat n"
        by (simp add: q_def pos_less_divide_eq)
      then have "(of_int ((k - 1) * int b) :: rat) < of_int (int n)" by simp
      then have "(k - 1) * int b < int n" by (simp only: of_int_less_iff)
      then have "(k - 1) * int b + 1 \<le> int n" by simp
      then have "(of_int ((k - 1) * int b + 1) :: rat) \<le> of_int (int n)" by (simp only: of_int_le_iff)
      then have "of_int (k - 1) * (of_nat b :: rat) + 1 \<le> of_nat n" by simp
      then have "(1::rat) \<le> of_nat n - of_int (k - 1) * of_nat b" by simp
      then have "1 / of_nat b \<le> ((of_nat n :: rat) - of_int (k - 1) * of_nat b) / of_nat b"
        using B by (intro divide_right_mono) simp_all
      also have "\<dots> = q - of_int (k - 1)" using B by (simp add: q_def diff_divide_distrib)
      finally show ?thesis .
    qed
    have half: "(of_nat b :: rat) < 2 * of_int w"
    proof -
      have "(of_nat b :: rat) * power_int 2 e < of_nat b * q" using es B by (simp add: mult_strict_left_mono)
      also have "\<dots> = of_nat n" using B by (simp add: q_def)
      also have "\<dots> \<le> power_int 2 53" by (rule n53)
      also have "\<dots> = (2 * power_int 2 (52 - e)) * power_int 2 e"
      proof -
        have "(power_int 2 (52 - e) :: rat) * power_int 2 e = power_int 2 ((52 - e) + e)"
          by (simp only: pow2_add)
        then have p: "(power_int 2 (52 - e) :: rat) * power_int 2 e = power_int 2 52" by simp
        have "(power_int 2 53 :: rat) = 2 * power_int 2 52" by simp
        also have "\<dots> = 2 * (power_int 2 (52 - e) * power_int 2 e)" by (simp only: p)
        finally show ?thesis by (simp only: mult.assoc)
      qed
      finally have "(of_nat b :: rat) < 2 * power_int 2 (52 - e)" by simp
      then show ?thesis using e52 by (simp add: pow2_int w_def)
    qed
    have "1 / 2 < of_int w / (of_nat b :: rat)" using half B by (simp add: pos_less_divide_eq)
    also have "\<dots> = (1 / of_nat b) * of_int w" by simp
    also have "\<dots> \<le> (q - of_int (k - 1)) * of_int w"
    proof (rule mult_right_mono)
      show "1 / of_nat b \<le> q - of_int (k - 1)" by (rule gap)
      show "(0::rat) \<le> of_int w" using w0 by simp
    qed
    finally have "of_int ((k - 1) * w) + 1 / 2 < q * of_int w" by (simp add: algebra_simps)
    then have "(k - 1) * w < round_half_even (q / u)" unfolding qu by (rule round_half_even_gt)
    then have "(of_int ((k - 1) * w) :: rat) < of_int (round_half_even (q / u))"
      by (simp only: of_int_less_iff)
    then have "of_int ((k - 1) * w) * u < of_int (round_half_even (q / u)) * u"
      using u0 by (simp add: mult_strict_right_mono)
    moreover have "of_int ((k - 1) * w) * u = of_int (k - 1) * (of_int w * u)" by simp
    moreover have "of_int (k - 1) * (of_int w * u) = (of_int k - 1 :: rat)" by (simp only: uw) simp
    ultimately have lo: "of_int k - 1 < round_double q" by (simp only: fl)
    have "\<lceil>round_double q\<rceil> = k" using lo up by (intro ceiling_unique) simp_all
    then show ?thesis by (simp add: k_def q_def)
  qed
qed

lemma round_double_nat:
  assumes "n \<le> 2 ^ 53"
  shows "round_double (of_nat n) = of_nat n"
proof (cases "n = 0")
  case True
  then show ?thesis by (simp add: round_double_def)
next
  case False
  define q :: rat where "q = of_nat n"
  define e where "e = ilog2 q"
  define u :: rat where "u = power_int 2 (e - 52)"
  have q0: "0 < q" using False by (simp add: q_def)
  have u0: "0 < u" by (simp add: u_def)
  have "power_int 2 0 \<le> q" using False by (simp add: q_def)
  from ilog2_ge[OF q0 this] have e0: "0 \<le> e" by (simp add: e_def)
  then have elo: "- 1022 \<le> e" by simp
  have eq: "power_int 2 e \<le> q" using ilog2_bounds(1)[OF q0] by (simp add: e_def)
  have n53: "q \<le> power_int 2 53"
  proof -
    have "(of_nat n :: rat) \<le> of_nat (2 ^ 53)" using assms by (simp only: of_nat_le_iff)
    then show ?thesis by (simp add: q_def)
  qed
  show ?thesis
  proof (cases "q = power_int 2 e")
    case True
    then have "round_double q = q" using round_double_pow2[OF q0] elo by (simp add: e_def)
    then show ?thesis by (simp add: q_def)
  next
    case False
    with eq have es: "power_int 2 e < q" by simp
    have "q < power_int 2 53"
    proof (rule ccontr)
      assume "\<not> q < power_int 2 53"
      with n53 have q53: "q = power_int 2 53" by simp
      then have "53 \<le> e" using ilog2_ge[OF q0, of 53] by (simp add: e_def)
      then have "(power_int 2 53 :: rat) \<le> power_int 2 e" by (intro power_int_increasing) simp_all
      with es q53 show False by simp
    qed
    from ilog2_less[OF q0 this] have e52: "e \<le> 52" by (simp add: e_def)
    define w where "w = (2::int) ^ nat (52 - e)"
    have w: "1 / u = of_int w" using grid_unit[OF e52] by (simp add: u_def w_def)
    have uw: "of_int w * u = 1" using w u0 by (simp add: field_simps)
    have "q / u = q * (1 / u)" by simp
    then have "q / u = q * of_int w" by (simp only: w)
    also have "\<dots> = of_int (int n * w)" by (simp add: q_def)
    finally have "round_half_even (q / u) = int n * w" by (simp only: round_half_even_of_int)
    then have "round_double q = of_int (int n * w) * u"
      using round_double_pos[OF q0] elo by (simp add: e_def u_def)
    also have "\<dots> = of_nat n * (of_int w * u)" by simp
    finally show ?thesis by (simp add: uw q_def)
  qed
qed

section \<open>Batch arithmetic\<close>

lemma ceil_div_nat:
  assumes "0 < b"
  shows "nat \<lceil>(of_nat n :: rat) / of_nat b\<rceil> = (n + b - 1) div b"
proof -
  define q where "q = (n + b - 1) div b"
  have 1: "q * b \<le> n + b - 1" unfolding q_def by simp
  have "n + b - 1 < b + (n + b - 1) div b * b"
    using assms by (rule dividend_less_div_times)
  then have 2: "n + b - 1 < q * b + b" unfolding q_def by simp
  have up: "n \<le> q * b" using 2 assms by linarith
  have lo: "q * b < n + b" using 1 assms by linarith
  have B: "(0::rat) < of_nat b" using assms by simp
  have "\<lceil>(of_nat n :: rat) / of_nat b\<rceil> = int q"
  proof (rule ceiling_unique)
    have "(of_nat (q * b) :: rat) < of_nat (n + b)" using lo by (simp only: of_nat_less_iff)
    then have "(of_nat q - 1) * (of_nat b :: rat) < of_nat n" by (simp add: algebra_simps)
    then show "of_int (int q) - 1 < (of_nat n :: rat) / of_nat b"
      using B by (simp add: pos_less_divide_eq)
    have "(of_nat n :: rat) \<le> of_nat (q * b)" using up by (simp only: of_nat_le_iff)
    then show "(of_nat n :: rat) / of_nat b \<le> of_int (int q)"
      using B by (simp add: pos_divide_le_eq)
  qed
  then show ?thesis by (simp add: q_def)
qed


lemma ceil_real_rat: "\<lceil>real n / real b\<rceil> = \<lceil>(of_nat n :: rat) / of_nat b\<rceil>"
proof -
  have "real n / real b = of_rat (of_nat n / of_nat b)" by (simp add: of_rat_divide)
  then show ?thesis by (simp only: of_rat_ceiling)
qed



lemma nbatches_bounds:
  fixes n b idx :: nat
  assumes "0 < b" and "idx < (n + b - 1) div b"
  shows "idx * b < n"
proof -
  define q where "q = (n + b - 1) div b"
  have 1: "q * b \<le> n + b - 1" unfolding q_def by simp
  have "Suc idx \<le> q" using assms(2) by (simp add: q_def)
  then have "Suc idx * b \<le> q * b" by (rule mult_le_mono1)
  then have 2: "idx * b + b \<le> q * b" by simp
  show ?thesis using 1 2 assms(1) by linarith
qed

lemma nbatches_cover:
  fixes n b :: nat
  assumes "0 < b"
  shows "n \<le> (n + b - 1) div b * b"
proof -
  have "n + b - 1 < b + (n + b - 1) div b * b"
    using assms by (rule dividend_less_div_times)
  then show ?thesis using assms by linarith
qed

lemma bounds_min: "fst (bounds s idx) = min ((idx + 1) * batch_size s) (n_pairs s)"
  by (simp add: bounds_def Let_def)


lemma concat_chunks: "concat (map (\<lambda>i. take b (drop (i * b) xs)) [0..<k]) = take (k * b) xs"
proof (induction k)
  case 0
  show ?case by simp
next
  case (Suc k)
  have "take (k * b + b) xs = take (k * b) xs @ take b (drop (k * b) xs)" by (rule take_add)
  with Suc show ?case by (simp add: add.commute)
qed

lemma slice_chunk:
  assumes "length xs = n_pairs s"
  shows "slice xs (idx * batch_size s) (fst (bounds s idx)) = take (batch_size s) (drop (idx * batch_size s) xs)"
  using assms by (simp add: slice_def bounds_min min_def)

lemma slice_length:
  assumes "length xs = n_pairs s" and "idx * batch_size s \<le> n_pairs s"
  shows "int (length (slice xs (idx * batch_size s) (fst (bounds s idx)))) = snd (bounds s idx)"
  using assms by (auto simp add: slice_def bounds_def Let_def)

lemma init_fields:
  "n_pairs (fst (init np ip f1 f2 d1 d2 ov fa ori M bs h w c ud un up upp ui rd g)) = length ov"
  "batch_size (fst (init np ip f1 f2 d1 d2 ov fa ori M bs h w c ud un up upp ui rd g)) = bs"
  "width (fst (init np ip f1 f2 d1 d2 ov fa ori M bs h w c ud un up upp ui rd g)) = w"
  "rotate_data (fst (init np ip f1 f2 d1 d2 ov fa ori M bs h w c ud un up upp ui rd g)) = rd"
  "imgfilenames1 (fst (init np ip f1 f2 d1 d2 ov fa ori M bs h w c ud un up upp ui rd g)) = f1"
  "imgfilenames2 (fst (init np ip f1 f2 d1 d2 ov fa ori M bs h w c ud un up upp ui rd g)) = f2"
  by (simp_all add: init_def Let_def split: prod.splits)

lemma concat_slices:
  assumes "0 < batch_size s" and "length xs = n_pairs s"
  shows "concat (map (\<lambda>idx. slice xs (idx * batch_size s) (fst (bounds s idx)))
           [0..<(n_pairs s + batch_size s - 1) div batch_size s]) = xs"
proof -
  have "concat (map (\<lambda>idx. slice xs (idx * batch_size s) (fst (bounds s idx)))
           [0..<(n_pairs s + batch_size s - 1) div batch_size s])
      = concat (map (\<lambda>i. take (batch_size s) (drop (i * batch_size s) xs))
           [0..<(n_pairs s + batch_size s - 1) div batch_size s])"
    using assms(2) slice_chunk[of xs s] by simp
  also have "\<dots> = take ((n_pairs s + batch_size s - 1) div batch_size s * batch_size s) xs"
    by (rule concat_chunks)
  also have "\<dots> = xs"
    using nbatches_cover[OF assms(1), of "n_pairs s"] assms(2) by simp
  finally show ?thesis .
qed

section \<open>The rotation schedule\<close>

lemma draw_shifts_length: "length (fst (draw_shifts w k g)) = k"
  by (induction k arbitrary: g) (simp_all add: randint_def case_prod_beta)

lemma draw_shifts_range: "r \<in> set (fst (draw_shifts w k g)) \<Longrightarrow> r \<le> w"
proof (induction k arbitrary: g)
  case 0
  then show ?case by simp
next
  case (Suc k)
  have "raw g (pos g) mod (w + 1) \<le> w"
    by (metis Suc_eq_plus1 less_Suc_eq_le mod_less_divisor zero_less_Suc)
  with Suc show ?case
    by (auto simp add: randint_def case_prod_beta)
qed

lemma draw_shifts_pos: "pos (snd (draw_shifts w k g)) = pos g + k"
  by (induction k arbitrary: g) (simp_all add: randint_def case_prod_beta)

lemma getitem_state:
  "snd (getitem np s g idx) =
     (if idx = 0 \<and> rotate_data s = 2
      then (s\<lparr>random_rotate := Some (fst (draw_shifts (width s) (n_pairs s) g))\<rparr>,
            snd (draw_shifts (width s) (n_pairs s) g))
      else (s, g))"
  by (simp add: getitem_def Let_def split: prod.splits)

lemma run_batches_no_regeneration:
  assumes "\<forall>idx\<in>set idxs. \<not> (idx = 0 \<and> rotate_data s = 2)"
  shows "run_batches np (s, g) idxs = (s, g)"
  using assms by (induction idxs) (auto simp add: getitem_state)

lemma run_batches_pass:
  assumes "rotate_data s = 2" and "0 < L"
  shows "run_batches np (s, g) [0..<L] =
           (s\<lparr>random_rotate := Some (fst (draw_shifts (width s) (n_pairs s) g))\<rparr>,
            snd (draw_shifts (width s) (n_pairs s) g))"
proof -
  have "[0..<L] = 0 # [1..<L]" using assms(2) by (simp add: upt_conv_Cons)
  moreover have "\<forall>idx\<in>set [1..<L]. \<not> (idx = 0 \<and> rotate_data (s\<lparr>random_rotate := X\<rparr>) = 2)" for X
    by simp
  ultimately show ?thesis
    using assms(1) by (simp add: getitem_state run_batches_no_regeneration)
qed

lemma init_schedule:
  "0 < rd \<Longrightarrow>
   random_rotate (fst (init np ip f1 f2 d1 d2 ov fa ori M bs h w c ud un up upp ui rd g))
     = Some (fst (draw_shifts w (length ov) (random_seed np 1234)))"
  by (simp add: init_def Let_def split: prod.splits)

text \<open>
  Claim C3, amended. \<open>random.randint(0, width)\<close> includes both ends, so every entry of
  the rotation schedule lies in the closed range from 0 to \<open>width\<close>: for the schedule
  created by \<open>__init__\<close> when \<open>rotate_data > 0\<close> and for the schedule regenerated by
  \<open>__getitem__\<close> at batch 0 when \<open>rotate_data = 2\<close>. Each has one entry per pair.
\<close>

theorem schedule_entries_within_width:
  "(0 < rd \<longrightarrow>
      (\<exists>rr. random_rotate (fst (init np ip f1 f2 d1 d2 ov fa ori M bs h w c ud un up upp ui rd g)) = Some rr
          \<and> length rr = length ov \<and> (\<forall>r\<in>set rr. r \<le> w)))
   \<and> (rotate_data s = 2 \<longrightarrow>
      (\<exists>rr. random_rotate (fst (snd (getitem np s g' 0))) = Some rr
          \<and> length rr = n_pairs s \<and> (\<forall>r\<in>set rr. r \<le> width s)))"
  by (auto simp add: init_schedule getitem_state draw_shifts_length dest: draw_shifts_range)

theorem schedule_entries_within_width_witness:
  "(0::int) < 1
   \<and> rotate_data (ex_pair 2) = 2
   \<and> (\<exists>rr. random_rotate (ex_pair 1) = Some rr \<and> length rr = 5 \<and> rr ! 4 \<le> 4)
   \<and> (\<exists>rr. random_rotate (fst (snd (getitem ex_env (ex_pair 2) ex_gen 0))) = Some rr
          \<and> length rr = 5 \<and> rr ! 1 \<le> 4)"
proof -
  have h1: "(0::int) < 1" by simp
  have h2: "rotate_data (ex_pair 2) = 2" by (simp add: ex_pair_def init_fields)
  have n: "n_pairs (ex_pair 2) = 5" and w: "width (ex_pair 2) = 4"
    by (simp_all add: ex_pair_def init_fields)
  from schedule_entries_within_width[of 1 ex_env "''/d''" "[''a0'', ''a1'', ''a2'', ''a3'', ''a4'']"
            "[''b0'', ''b1'', ''b2'', ''b3'', ''b4'']"
            "[''07'', ''07'', ''07'', ''07'', ''07'']" "[''07'', ''07'', ''07'', ''07'', ''07'']"
            "[1/2, 1/4, 0, 1, 3/4]" "[7/10, 1/5, 3/10, 2/5, 9/10]"
            "[Finite (7/2), Finite 1, Finite 2, Finite 0, Finite 9]"
            10 2 1 4 4 True True False False False ex_gen "ex_pair 2" ex_gen] h1 h2
  obtain rr rr' where
    a: "random_rotate (ex_pair 1) = Some rr" "length rr = 5" "\<forall>r\<in>set rr. r \<le> 4" and
    b: "random_rotate (fst (snd (getitem ex_env (ex_pair 2) ex_gen 0))) = Some rr'"
       "length rr' = 5" "\<forall>r\<in>set rr'. r \<le> 4"
    unfolding ex_pair_def[symmetric] n w by auto
  from a have "rr ! 4 \<le> 4" by simp
  moreover from b have "rr' ! 1 \<le> 4" by simp
  ultimately show ?thesis using h1 h2 a b by blast
qed

text \<open>
  The half-open range of claim C3 fails: with width 4 the fifth entry of the schedule
  created at construction is 4, and the schedule regenerated in mode 2 holds a 4 as well.
\<close>

theorem schedule_entry_equal_to_width:
  "random_rotate (ex_pair 1) = Some [3, 0, 0, 0, 4]
   \<and> width (ex_pair 1) = 4
   \<and> \<not> ([3, 0, 0, 0, 4] ! 4 < width (ex_pair 1))
   \<and> random_rotate (fst (snd (getitem ex_env (ex_pair 2) ex_gen 0))) = Some [2, 4, 1, 3, 0]"
  by code_simp

text \<open>
  Claim C4. A call of \<open>__getitem__\<close> with \<open>idx = 0\<close> in rotation mode 2 replaces the schedule
  by \<open>n\<close> fresh draws, which advances the generator by \<open>n\<close>; every other call (another
  index, or another mode) leaves the object and the generator unchanged. Hence a pass
  over the batches \<open>0, ..., L - 1\<close> in mode 2 ends in the state reached right after its
  first call, with exactly \<open>n\<close> numbers drawn, and in any other mode no sequence of calls
  changes anything.
\<close>

theorem regeneration_once_per_pass:
  "(idx = 0 \<and> rotate_data s = 2 \<longrightarrow>
       snd (getitem np s g idx) =
         (s\<lparr>random_rotate := Some (fst (draw_shifts (width s) (n_pairs s) g))\<rparr>,
          snd (draw_shifts (width s) (n_pairs s) g))
     \<and> length (fst (draw_shifts (width s) (n_pairs s) g)) = n_pairs s
     \<and> pos (snd (draw_shifts (width s) (n_pairs s) g)) = pos g + n_pairs s)
   \<and> (\<not> (idx = 0 \<and> rotate_data s = 2) \<longrightarrow> snd (getitem np s g idx) = (s, g))
   \<and> (rotate_data s = 2 \<and> 0 < L \<longrightarrow>
        run_batches np (s, g) [0..<L] = snd (getitem np s g 0)
      \<and> pos (snd (run_batches np (s, g) [0..<L])) = pos g + n_pairs s)
   \<and> (rotate_data s \<noteq> 2 \<longrightarrow> run_batches np (s, g) idxs = (s, g))"
  by (simp add: getitem_state draw_shifts_length draw_shifts_pos run_batches_pass
        run_batches_no_regeneration)

theorem regeneration_once_per_pass_witness:
  "rotate_data (ex_pair 2) = 2
   \<and> random_rotate (fst (snd (getitem ex_env (ex_pair 2) ex_gen 0))) = Some [2, 4, 1, 3, 0]
   \<and> pos (snd (snd (getitem ex_env (ex_pair 2) ex_gen 0))) = 5
   \<and> snd (getitem ex_env (ex_pair 2) ex_gen 1) = (ex_pair 2, ex_gen)
   \<and> run_batches ex_env (ex_pair 2, ex_gen) [0..<3] = snd (getitem ex_env (ex_pair 2) ex_gen 0)
   \<and> pos (snd (run_batches ex_env (ex_pair 2, ex_gen) [0..<3])) = 5
   \<and> rotate_data (ex_pair 1) \<noteq> 2
   \<and> run_batches ex_env (ex_pair 1, ex_gen) [0, 1, 2, 0] = (ex_pair 1, ex_gen)"
proof -
  have h: "rotate_data (ex_pair 2) = 2" and h1: "rotate_data (ex_pair 1) \<noteq> 2"
    by (simp_all add: ex_pair_def init_fields)
  have n: "n_pairs (ex_pair 2) = 5" and w: "width (ex_pair 2) = 4"
    by (simp_all add: ex_pair_def init_fields)
  have p: "pos ex_gen = 0" by (simp add: ex_gen_def)
  have d: "fst (draw_shifts 4 5 ex_gen) = [2, 4, 1, 3, 0]" by code_simp
  note T0 = regeneration_once_per_pass[of 0 "ex_pair 2" ex_env ex_gen 3 "[]"]
  note T1 = regeneration_once_per_pass[of 1 "ex_pair 2" ex_env ex_gen 3 "[]"]
  note T2 = regeneration_once_per_pass[of 0 "ex_pair 1" ex_env ex_gen 3 "[0, 1, 2, 0]"]
  from T0 h have a: "snd (getitem ex_env (ex_pair 2) ex_gen 0) =
         ((ex_pair 2)\<lparr>random_rotate := Some (fst (draw_shifts (width (ex_pair 2)) (n_pairs (ex_pair 2)) ex_gen))\<rparr>,
          snd (draw_shifts (width (ex_pair 2)) (n_pairs (ex_pair 2)) ex_gen))"
    and b: "pos (snd (draw_shifts (width (ex_pair 2)) (n_pairs (ex_pair 2)) ex_gen)) = pos ex_gen + n_pairs (ex_pair 2)"
    and c: "run_batches ex_env (ex_pair 2, ex_gen) [0..<3] = snd (getitem ex_env (ex_pair 2) ex_gen 0)"
    and e: "pos (snd (run_batches ex_env (ex_pair 2, ex_gen) [0..<3])) = pos ex_gen + n_pairs (ex_pair 2)"
    by simp_all
  from T1 have f: "snd (getitem ex_env (ex_pair 2) ex_gen 1) = (ex_pair 2, ex_gen)" by simp
  from T2 h1 have g: "run_batches ex_env (ex_pair 1, ex_gen) [0, 1, 2, 0] = (ex_pair 1, ex_gen)"
    by blast
  have a1: "random_rotate (fst (snd (getitem ex_env (ex_pair 2) ex_gen 0))) = Some [2, 4, 1, 3, 0]"
    unfolding a by (simp add: n w d)
  have a2: "pos (snd (snd (getitem ex_env (ex_pair 2) ex_gen 0))) = 5"
    unfolding a using b by (simp add: n p)
  from e have e': "pos (snd (run_batches ex_env (ex_pair 2, ex_gen) [0..<3])) = 5" by (simp add: n p)
  show ?thesis using h h1 a1 a2 f c e' g by blast
qed

lemma run_batches_mode_1:
  assumes "rotate_data s = 1"
  shows "run_batches np (s, g) idxs = (s, g)"
  using assms by (intro run_batches_no_regeneration) simp

text \<open>
  Claim C8. In rotation mode 1 a call of \<open>__getitem__\<close> leaves the object and the global
  generator as they were, so any sequence of calls, over any number of passes, ends with
  the same schedule and looks up the same shift for every total index. For an object
  built by \<open>__init__\<close> that schedule is the one drawn from the generator seeded with 1234:
  it does not depend on the generator state before the construction.
\<close>

theorem schedule_fixed_in_mode_1:
  assumes "rotate_data s = 1"
  shows "snd (getitem np s g idx) = (s, g)
       \<and> run_batches np (s, g) idxs = (s, g)
       \<and> lookup_shift (fst (run_batches np (s, g) idxs)) i = lookup_shift s i
       \<and> (s = fst (init np ip f1 f2 d1 d2 ov fa ori M bs h w c ud un up upp ui rd g0) \<longrightarrow>
            random_rotate (fst (run_batches np (s, g) idxs))
              = Some (fst (draw_shifts w (length ov) (random_seed np 1234))))"
proof -
  have 1: "snd (getitem np s g idx) = (s, g)" using assms by (simp add: getitem_state)
  have 2: "run_batches np (s, g) idxs = (s, g)" using assms by (rule run_batches_mode_1)
  have 3: "random_rotate s = Some (fst (draw_shifts w (length ov) (random_seed np 1234)))"
    if "s = fst (init np ip f1 f2 d1 d2 ov fa ori M bs h w c ud un up upp ui rd g0)"
  proof -
    have "rd = 1" using assms that by (simp add: init_fields)
    then show ?thesis using that by (simp add: init_schedule)
  qed
  show ?thesis unfolding 2 fst_conv using 1 3 by blast
qed

theorem schedule_fixed_in_mode_1_witness:
  "rotate_data (ex_pair 1) = 1
   \<and> run_batches ex_env (ex_pair 1, ex_gen) [0, 1, 2, 0, 1, 2] = (ex_pair 1, ex_gen)
   \<and> random_rotate (fst (run_batches ex_env (ex_pair 1, ex_gen) [0, 1, 2, 0, 1, 2])) = Some [3, 0, 0, 0, 4]
   \<and> lookup_shift (fst (run_batches ex_env (ex_pair 1, ex_gen) [0, 1, 2, 0, 1, 2])) 4 = Inr 4"
proof -
  have h: "rotate_data (ex_pair 1) = 1" by (simp add: ex_pair_def init_fields)
  have r: "random_rotate (ex_pair 1) = Some [3, 0, 0, 0, 4]" by code_simp
  have l: "lookup_shift (ex_pair 1) 4 = Inr 4" by code_simp
  from schedule_fixed_in_mode_1[OF h, of ex_env ex_gen 0 "[0, 1, 2, 0, 1, 2]" 4]
  have "run_batches ex_env (ex_pair 1, ex_gen) [0, 1, 2, 0, 1, 2] = (ex_pair 1, ex_gen)"
    and "lookup_shift (fst (run_batches ex_env (ex_pair 1, ex_gen) [0, 1, 2, 0, 1, 2])) 4
          = lookup_shift (ex_pair 1) 4"
    by blast+
  then show ?thesis using h r l by simp
qed


section \<open>Target rows\<close>

lemma slice_nth:
  assumes "j < length (slice xs a b)"
  shows "slice xs a b ! j = xs ! (a + j)" and "a + j < length xs" and "a + j < b"
  using assms by (auto simp add: slice_def)

lemma slice_length_iff: "j < length (slice xs a b) \<longleftrightarrow> a + j < length xs \<and> a + j < b"
  by (auto simp add: slice_def)

lemma target_item_Inr:
  assumes "target_item M yfa yori k = Inr row"
  shows "k < length yfa \<and> k < length yori
       \<and> (\<exists>p. py_int (yori ! k) = Inr p \<and> np_set (replicate M 0) p (yfa ! k) = Inr row)"
proof -
  from assms have 1: "k < length yfa" and 2: "k < length yori"
    by (auto simp add: target_item_def py_index_def split: if_splits)
  with assms have "bind_err (py_int (yori ! k)) (\<lambda>p. np_set (replicate M 0) p (yfa ! k)) = Inr row"
    by (simp add: target_item_def py_index_def)
  then have "\<exists>p. py_int (yori ! k) = Inr p \<and> np_set (replicate M 0) p (yfa ! k) = Inr row"
    by (cases "py_int (yori ! k)") simp_all
  with 1 2 show ?thesis by simp
qed

lemma np_set_error: "np_set a k v = Inl e \<Longrightarrow> e = IndexError"
  by (auto simp add: np_set_def Let_def split: if_splits)

lemma target_item_error:
  assumes "target_item M yfa yori k = Inl e"
      and "k < length yori \<Longrightarrow> \<exists>q. yori ! k = Finite q"
  shows "e = IndexError"
proof (cases "k < length yfa \<and> k < length yori")
  case False
  with assms(1) show ?thesis
    by (auto simp add: target_item_def py_index_def split: if_splits)
next
  case True
  with assms(2) obtain q where q: "yori ! k = Finite q" by blast
  with True assms(1) show ?thesis
    by (auto simp add: target_item_def py_index_def dest: np_set_error)
qed

lemma targets_loop_rows:
  "targets_loop M yfa yori ks acc = Inr y \<Longrightarrow>
     \<exists>rows. y = acc @ rows \<and> length rows = length ks
        \<and> (\<forall>j<length ks. target_item M yfa yori (ks ! j) = Inr (rows ! j))"
proof (induction ks arbitrary: acc)
  case Nil
  then show ?case by simp
next
  case (Cons k ks)
  from Cons.prems obtain item where item: "target_item M yfa yori k = Inr item"
    and rest: "targets_loop M yfa yori ks (acc @ [item]) = Inr y"
    by (cases "target_item M yfa yori k") simp_all
  from Cons.IH[OF rest] obtain rows where rows: "y = (acc @ [item]) @ rows"
    "length rows = length ks"
    "\<forall>j<length ks. target_item M yfa yori (ks ! j) = Inr (rows ! j)" by blast
  have "\<forall>j<length (k # ks). target_item M yfa yori ((k # ks) ! j) = Inr ((item # rows) ! j)"
    using item rows(3) by (auto simp add: nth_Cons split: nat.splits)
  with rows(1,2) show ?case by (intro exI[of _ "item # rows"]) simp
qed

lemma targets_loop_fails:
  "k \<in> set ks \<Longrightarrow> target_item M yfa yori k = Inl e \<Longrightarrow>
     \<exists>e'. targets_loop M yfa yori ks acc = Inl e'"
proof (induction ks arbitrary: acc)
  case Nil
  then show ?case by simp
next
  case (Cons a ks)
  show ?case
  proof (cases "target_item M yfa yori a")
    case (Inl e')
    then show ?thesis by simp
  next
    case (Inr item)
    with Cons.prems have "k \<in> set ks" by auto
    from Cons.IH[OF this Cons.prems(2)] Inr show ?thesis by simp
  qed
qed

lemma targets_loop_first_failure:
  assumes "\<forall>k'\<in>set pre. \<forall>e. target_item M yfa yori k' = Inl e \<longrightarrow> e = e0"
      and "target_item M yfa yori k = Inl e0"
  shows "targets_loop M yfa yori (pre @ k # post) acc = Inl e0"
  using assms(1)
proof (induction pre arbitrary: acc)
  case Nil
  then show ?case using assms(2) by simp
next
  case (Cons a pre)
  show ?case
  proof (cases "target_item M yfa yori a")
    case (Inl e)
    with Cons.prems have "e = e0" by simp
    with Inl show ?thesis by simp
  next
    case (Inr item)
    from Cons.prems have "\<forall>k'\<in>set pre. \<forall>e. target_item M yfa yori k' = Inl e \<longrightarrow> e = e0"
      by simp
    from Cons.IH[OF this] Inr show ?thesis by simp
  qed
qed

lemma bounds_schedule [simp]: "bounds (s\<lparr>random_rotate := X\<rparr>) idx = bounds s idx"
  by (simp add: bounds_def Let_def)

lemma batch_targets_schedule [simp]:
  "batch_targets (s\<lparr>random_rotate := X\<rparr>) idx = batch_targets s idx"
  by (simp add: batch_targets_def Let_def)

lemma getitem_result:
  "fst (getitem np s g idx) = getitem_body np (fst (snd (getitem np s g idx))) idx"
  by (simp add: getitem_def Let_def split: prod.splits)

lemma batch_targets_after:
  "batch_targets (fst (snd (getitem np s g idx))) idx = batch_targets s idx"
  by (simp add: getitem_state)

lemma getitem_body_Inr:
  assumes "getitem_body np s idx = Inr b"
  shows "batch_targets s idx = Inr (target_array (targets b))"
proof -
  from assms obtain xs where xs: "batch_inputs np s idx = Inr xs"
    by (cases "batch_inputs np s idx") (simp_all add: getitem_body_def)
  obtain x1 x2 where x: "xs = (x1, x2)" by (cases xs)
  from assms xs x obtain y where y: "batch_targets s idx = Inr y"
    by (cases "batch_targets s idx") (simp_all add: getitem_body_def)
  from assms xs x y have "target_array (targets b) = y"
    by (cases x2) (auto simp add: getitem_body_def Let_def)
  with y show ?thesis by simp
qed

lemma getitem_Inr_targets:
  assumes "fst (getitem np s g idx) = Inr b"
  shows "batch_targets s idx = Inr (target_array (targets b))"
  using assms getitem_body_Inr[of np "fst (snd (getitem np s g idx))" idx b]
  by (simp add: getitem_result batch_targets_after)

lemma batch_targets_rows:
  assumes "batch_targets s idx = Inr y"
  shows "length y = length (slice (overlap s) (idx * batch_size s) (fst (bounds s idx)))"
    and "j < length y \<Longrightarrow>
           idx * batch_size s + j < length (function_angle s)
         \<and> idx * batch_size s + j < length (orientation s)
         \<and> (\<exists>p. py_int (orientation s ! (idx * batch_size s + j)) = Inr p
              \<and> np_set (replicate (network_output_size s) 0) p
                    (function_angle s ! (idx * batch_size s + j)) = Inr (y ! j))"
proof -
  let ?lo = "idx * batch_size s" and ?hi = "fst (bounds s idx)"
  let ?m = "length (slice (overlap s) ?lo ?hi)"
  from assms have "targets_loop (network_output_size s) (slice (function_angle s) ?lo ?hi)
      (slice (orientation s) ?lo ?hi) [0..<?m] [] = Inr y"
    by (simp add: batch_targets_def Let_def)
  from targets_loop_rows[OF this] have len: "length y = ?m"
    and rows: "\<forall>j<?m. target_item (network_output_size s) (slice (function_angle s) ?lo ?hi)
        (slice (orientation s) ?lo ?hi) j = Inr (y ! j)"
    by auto
  show "length y = ?m" by (rule len)
  assume "j < length y"
  with len rows have "target_item (network_output_size s) (slice (function_angle s) ?lo ?hi)
        (slice (orientation s) ?lo ?hi) j = Inr (y ! j)" by simp
  from target_item_Inr[OF this]
  obtain p where *: "j < length (slice (function_angle s) ?lo ?hi)"
    "j < length (slice (orientation s) ?lo ?hi)"
    "py_int (slice (orientation s) ?lo ?hi ! j) = Inr p"
    "np_set (replicate (network_output_size s) 0) p (slice (function_angle s) ?lo ?hi ! j) = Inr (y ! j)"
    by blast
  from *(3,4) slice_nth[OF *(1)] slice_nth[OF *(2)]
  show "?lo + j < length (function_angle s) \<and> ?lo + j < length (orientation s)
         \<and> (\<exists>p. py_int (orientation s ! (?lo + j)) = Inr p
              \<and> np_set (replicate (network_output_size s) 0) p (function_angle s ! (?lo + j)) = Inr (y ! j))"
    by simp
qed

lemma np_set_in_range:
  assumes "0 \<le> k" and "k < int M"
  shows "np_set (replicate M 0) k v = Inr ((replicate M 0)[nat k := v])"
  using assms by (simp add: np_set_def)

lemma np_set_wraps:
  assumes "- int M \<le> k" and "k < 0"
  shows "np_set (replicate M 0) k v = Inr ((replicate M 0)[nat (int M + k) := v])"
  using assms by (simp add: np_set_def)

lemma np_set_out_of_range:
  assumes "int M \<le> k \<or> k < - int M"
  shows "np_set (replicate M 0) k v = Inl IndexError"
  using assms by (auto simp add: np_set_def)


text \<open>
  Claim C6. When \<open>__getitem__\<close> returns, the target array has one row per sample of the
  batch, and for a sample at local offset \<open>j\<close> whose orientation, cast to an integer \<open>k\<close>,
  lies in \<open>[0, M)\<close> the row has length \<open>M\<close>, holds the sample's function angle at position
  \<open>k\<close> and zero everywhere else.
\<close>

theorem target_row_has_single_peak:
  assumes "fst (getitem np s g idx) = Inr b"
      and "j < length (target_array (targets b))"
      and "py_int (orientation s ! (idx * batch_size s + j)) = Inr k"
      and "0 \<le> k"
      and "k < int (network_output_size s)"
  shows "length (target_array (targets b))
           = length (slice (overlap s) (idx * batch_size s) (fst (bounds s idx)))
       \<and> idx * batch_size s + j < length (orientation s)
       \<and> idx * batch_size s + j < length (function_angle s)
       \<and> target_array (targets b) ! j
           = (replicate (network_output_size s) 0)
               [nat k := function_angle s ! (idx * batch_size s + j)]
       \<and> length (target_array (targets b) ! j) = network_output_size s
       \<and> (\<forall>p<network_output_size s.
             target_array (targets b) ! j ! p
               = (if p = nat k then function_angle s ! (idx * batch_size s + j) else 0))"
proof -
  let ?y = "target_array (targets b)"
  let ?v = "function_angle s ! (idx * batch_size s + j)"
  have y: "batch_targets s idx = Inr ?y" using assms(1) by (rule getitem_Inr_targets)
  note rows = batch_targets_rows[OF y]
  from rows(2)[OF assms(2)] assms(3) np_set_in_range[OF assms(4,5)]
  have row: "?y ! j = (replicate (network_output_size s) 0)[nat k := ?v]" by auto
  have "\<forall>p<network_output_size s. ?y ! j ! p = (if p = nat k then ?v else 0)"
    unfolding row by (simp add: nth_list_update)
  moreover have "length (?y ! j) = network_output_size s" unfolding row by simp
  ultimately show ?thesis using rows(1) rows(2)[OF assms(2)] row by simp
qed

theorem target_row_has_single_peak_witness:
  "fst (getitem ex_env ex_single ex_gen 0) = Inr ex_batch0
   \<and> 0 < length (target_array (targets ex_batch0))
   \<and> py_int (orientation ex_single ! (0 * batch_size ex_single + 0)) = Inr 3
   \<and> (0::int) \<le> 3
   \<and> 3 < int (network_output_size ex_single)
   \<and> target_array (targets ex_batch0) ! 0 = (replicate 10 0)[3 := 7 / 10]"
proof -
  have 1: "fst (getitem ex_env ex_single ex_gen 0) = Inr ex_batch0" by code_simp
  have 2: "0 < length (target_array (targets ex_batch0))" by code_simp
  have 3: "py_int (orientation ex_single ! (0 * batch_size ex_single + 0)) = Inr 3" by code_simp
  have 4: "(0::int) \<le> 3" by simp
  have 5: "3 < int (network_output_size ex_single)" by code_simp
  have M: "network_output_size ex_single = 10" by code_simp
  have v: "function_angle ex_single ! (0 * batch_size ex_single + 0) = 7 / 10" by code_simp
  from target_row_has_single_peak[OF 1 2 3 4 5]
  have "target_array (targets ex_batch0) ! 0
      = (replicate (network_output_size ex_single) 0)
          [nat 3 := function_angle ex_single ! (0 * batch_size ex_single + 0)]"
    by blast
  then have "target_array (targets ex_batch0) ! 0 = (replicate 10 0)[3 := 7 / 10]"
    by (simp only: M v) simp
  with 1 2 3 4 5 show ?thesis by blast
qed

section \<open>Channel assembly and its failures\<close>



lemma load_depth_missing:
  assumes "file_path s dir_f batch_f i ''depth'' ''.npy'' = Inr f"
      and "np_load np f = Inl (IOError m)"
  shows "load_depth np s x i batch_f dir_f c = Inl (Exception (''Could not read depth image '' @ f))"
  using assms by (simp add: load_depth_def)

lemma load_normals_missing:
  assumes "file_path s dir_f batch_f i ''normal'' ''.npy'' = Inr f"
      and "np_load np f = Inl (IOError m)"
  shows "load_normals np s x i batch_f dir_f c = Inl (Exception (''Could not read normal image '' @ f))"
  using assms by (simp add: load_normals_def)

lemma prepareOneInput_depth_missing:
  assumes "use_depth s"
      and "file_path s dir_f batch_f i ''depth'' ''.npy'' = Inr f"
      and "np_load np f = Inl (IOError m)"
  shows "prepareOneInput np s x i batch_f dir_f totalidx rotating
           = Inl (Exception (''Could not read depth image '' @ f))"
  using assms(1) load_depth_missing[OF assms(2,3)] by (simp add: prepareOneInput_def)

lemma prepareOneInput_normals_missing:
  assumes "use_normals s"
      and "(if use_depth s then load_depth np s x i batch_f dir_f 0 else Inr (x, 0)) = Inr (xa, ca)"
      and "file_path s dir_f batch_f i ''normal'' ''.npy'' = Inr f"
      and "np_load np f = Inl (IOError m)"
  shows "prepareOneInput np s x i batch_f dir_f totalidx rotating
           = Inl (Exception (''Could not read normal image '' @ f))"
  using assms(1,2) load_normals_missing[OF assms(3,4)] by (simp add: prepareOneInput_def)

lemma load_probabilities_fallback:
  assumes "file_path s dir_f batch_f i
             (if use_class_probabilities_pca s then ''probability_pca'' else ''probability'') ''.npy'' = Inr f"
      and "file_path s dir_f batch_f i
             (if use_class_probabilities_pca s then ''probability_pca'' else ''probability'') ''.npz'' = Inr f2"
      and "np_load np f = Inl (IOError m)"
  shows "load_probabilities np s x i batch_f dir_f c =
           bind_err (np_load np f2) (\<lambda>img.
           bind_err (setitem np x i
               (ChanRange c (c + (if use_class_probabilities_pca s then 3 else 20))) img) (\<lambda>x'.
             Inr (x', c + (if use_class_probabilities_pca s then 3 else 20))))"
  using assms by (simp add: load_probabilities_def Let_def)

lemma load_probabilities_primary:
  assumes "file_path s dir_f batch_f i
             (if use_class_probabilities_pca s then ''probability_pca'' else ''probability'') ''.npy'' = Inr f"
      and "np_load np f = Inr img"
      and "setitem np x i (ChanRange c (c + (if use_class_probabilities_pca s then 3 else 20))) img = Inr x'"
  shows "load_probabilities np s x i batch_f dir_f c
           = Inr (x', c + (if use_class_probabilities_pca s then 3 else 20))"
  using assms by (simp add: load_probabilities_def Let_def)

lemma load_intensity_fallback:
  assumes "file_path s dir_f batch_f i ''intensity'' ''.npy'' = Inr f"
      and "file_path s dir_f batch_f i ''intensity'' ''.npz'' = Inr f2"
      and "np_load np f = Inl (IOError m)"
  shows "load_intensity np s x i batch_f dir_f c =
           bind_err (np_load np f2) (\<lambda>img.
           bind_err (setitem np x i (Chan c) img) (\<lambda>x'. Inr (x', c + 1)))"
  using assms by (cases "np_load np f2") (simp_all add: load_intensity_def)

lemma load_intensity_primary:
  assumes "file_path s dir_f batch_f i ''intensity'' ''.npy'' = Inr f"
      and "np_load np f = Inr img"
  shows "load_intensity np s x i batch_f dir_f c =
           bind_err (setitem np x i (Chan c) img) (\<lambda>x'. Inr (x', c + 1))"
  using assms by (simp add: load_intensity_def)

lemma fill_legs_fails:
  assumes "i \<in> set offs"
      and "\<And>x. \<exists>e. prepareOneInput np s x i bf1 df1 0 False = Inl e"
  shows "\<exists>e. fill_legs np s idx sz bf1 df1 bf2 df2 offs (x1, x2) = Inl e"
  using assms(1)
proof (induction offs arbitrary: x1 x2)
  case Nil
  then show ?case by simp
next
  case (Cons a offs)
  show ?case
  proof (cases "prepareOneInput np s x1 a bf1 df1 0 False")
    case (Inl e)
    then show ?thesis by simp
  next
    case first: (Inr x1')
    with assms(2)[of x1] have "a \<noteq> i" by auto
    with Cons.prems have i: "i \<in> set offs" by simp
    show ?thesis
    proof (cases x2)
      case None
      with first Cons.IH[OF i, of x1' None] show ?thesis by simp
    next
      case (Some t2)
      show ?thesis
      proof (cases "prepareOneInput np s t2 a bf2 df2 (idx * sz + a) (do_rotation s)")
        case (Inl e)
        with first Some show ?thesis by simp
      next
        case (Inr t2')
        with first Some Cons.IH[OF i, of x1' "Some t2'"] show ?thesis by simp
      qed
    qed
  qed
qed

lemma batch_inputs_fails:
  assumes "int i < snd (bounds s idx)"
      and "\<And>x. \<exists>e. prepareOneInput np s x i
              (slice (imgfilenames1 s) (idx * batch_size s) (fst (bounds s idx)))
              (slice (dir1 s) (idx * batch_size s) (fst (bounds s idx))) 0 False = Inl e"
  shows "\<exists>e. batch_inputs np s idx = Inl e"
proof -
  obtain maxidx sz where b: "bounds s idx = (maxidx, sz)" by (cases "bounds s idx")
  with assms(1) have sz: "\<not> sz < 0" "i \<in> set [0..<nat sz]" by auto
  from fill_legs_fails[OF sz(2), of np s "slice (imgfilenames1 s) (idx * batch_size s) maxidx"
      "slice (dir1 s) (idx * batch_size s) maxidx"] assms(2) b
  have "\<exists>e. fill_legs np s idx (nat sz) (slice (imgfilenames1 s) (idx * batch_size s) maxidx)
      (slice (dir1 s) (idx * batch_size s) maxidx) bf2 df2 [0..<nat sz] (x1, x2) = Inl e"
    for bf2 df2 x1 x2 by simp
  then show ?thesis using b sz(1) by (simp add: batch_inputs_def Let_def)
qed

lemma getitem_body_inputs_error:
  "batch_inputs np s idx = Inl e \<Longrightarrow> getitem_body np s idx = Inl e"
  by (simp add: getitem_body_def)

lemma file_path_schedule [simp]:
  "file_path (s\<lparr>random_rotate := X\<rparr>) df bf i sub ext = file_path s df bf i sub ext"
  by (simp add: file_path_def)

lemma load_schedule [simp]:
  "load_depth np (s\<lparr>random_rotate := X\<rparr>) x i bf df c = load_depth np s x i bf df c"
  "load_normals np (s\<lparr>random_rotate := X\<rparr>) x i bf df c = load_normals np s x i bf df c"
  "load_probabilities np (s\<lparr>random_rotate := X\<rparr>) x i bf df c = load_probabilities np s x i bf df c"
  "load_intensity np (s\<lparr>random_rotate := X\<rparr>) x i bf df c = load_intensity np s x i bf df c"
  by (simp_all add: load_depth_def load_normals_def load_probabilities_def load_intensity_def
        Let_def cong: sum.case_cong if_cong)

lemma prepareOneInput_schedule_leg1:
  "prepareOneInput np (s\<lparr>random_rotate := X\<rparr>) x i bf df t False = prepareOneInput np s x i bf df t False"
  by (simp add: prepareOneInput_def)

lemma prepareOneInput_normals_fails:
  assumes "use_normals s"
      and "file_path s dir_f batch_f i ''normal'' ''.npy'' = Inr f"
      and "np_load np f = Inl (IOError m)"
  shows "\<exists>e. prepareOneInput np s x i batch_f dir_f totalidx rotating = Inl e"
proof (cases "if use_depth s then load_depth np s x i batch_f dir_f 0 else Inr (x, 0)")
  case (Inl e)
  then show ?thesis by (simp add: prepareOneInput_def)
next
  case (Inr p)
  obtain xa ca where "p = (xa, ca)" by (cases p)
  with Inr prepareOneInput_normals_missing[OF assms(1) _ assms(2,3), of x xa ca]
  show ?thesis by blast
qed

lemma getitem_fails:
  assumes "int i < snd (bounds s idx)"
      and "\<And>x. \<exists>e. prepareOneInput np s x i
              (slice (imgfilenames1 s) (idx * batch_size s) (fst (bounds s idx)))
              (slice (dir1 s) (idx * batch_size s) (fst (bounds s idx))) 0 False = Inl e"
  shows "\<exists>e. fst (getitem np s g idx) = Inl e"
proof -
  have upd: "\<exists>e. batch_inputs np (s\<lparr>random_rotate := X\<rparr>) idx = Inl e" for X
    using assms by (intro batch_inputs_fails[of i]) (simp_all add: prepareOneInput_schedule_leg1)
  have "\<exists>e. batch_inputs np s idx = Inl e"
    using assms by (rule batch_inputs_fails)
  with upd have "\<exists>e. batch_inputs np (fst (snd (getitem np s g idx))) idx = Inl e"
    by (cases "idx = 0 \<and> rotate_data s = 2") (auto simp add: getitem_state)
  then show ?thesis
    by (auto simp add: getitem_result dest: getitem_body_inputs_error)
qed

section \<open>The two legs\<close>

lemma fill_legs_keeps_second:
  "fill_legs np s idx sz bf1 df1 bf2 df2 offs (x1, Some t2) = Inr (x1', x2') \<Longrightarrow> x2' \<noteq> None"
proof (induction offs arbitrary: x1 t2)
  case Nil
  then show ?case by auto
next
  case (Cons a offs)
  from Cons.prems obtain xa where xa: "prepareOneInput np s x1 a bf1 df1 0 False = Inr xa"
    by (cases "prepareOneInput np s x1 a bf1 df1 0 False") simp_all
  from Cons.prems xa obtain tb where
    tb: "prepareOneInput np s t2 a bf2 df2 (idx * sz + a) (do_rotation s) = Inr tb"
    by (cases "prepareOneInput np s t2 a bf2 df2 (idx * sz + a) (do_rotation s)") simp_all
  from Cons.prems xa tb have "fill_legs np s idx sz bf1 df1 bf2 df2 offs (xa, Some tb) = Inr (x1', x2')"
    by simp
  then show ?case by (rule Cons.IH)
qed

lemma fill_legs_keeps_single:
  "fill_legs np s idx sz bf1 df1 bf2 df2 offs (x1, None) = Inr (x1', x2') \<Longrightarrow> x2' = None"
proof (induction offs arbitrary: x1)
  case Nil
  then show ?case by auto
next
  case (Cons a offs)
  from Cons.prems obtain xa where xa: "prepareOneInput np s x1 a bf1 df1 0 False = Inr xa"
    by (cases "prepareOneInput np s x1 a bf1 df1 0 False") simp_all
  with Cons.prems have "fill_legs np s idx sz bf1 df1 bf2 df2 offs (xa, None) = Inr (x1', x2')"
    by simp
  then show ?case by (rule Cons.IH)
qed

lemma batch_inputs_second:
  assumes "batch_inputs np s idx = Inr (x1, x2)"
  shows "x2 = None \<longleftrightarrow> imgfilenames2 s = []"
proof -
  obtain maxidx sz where b: "bounds s idx = (maxidx, sz)" by (cases "bounds s idx")
  show ?thesis
  proof (cases "imgfilenames2 s = []")
    case True
    with assms b show ?thesis
      by (auto simp add: batch_inputs_def Let_def split: if_splits dest: fill_legs_keeps_single)
  next
    case False
    with assms b show ?thesis
      by (auto simp add: batch_inputs_def Let_def split: if_splits dest: fill_legs_keeps_second)
  qed
qed

lemma getitem_body_two_leg:
  assumes "imgfilenames2 s \<noteq> []"
  shows "getitem_body np s idx \<noteq> Inr b"
proof (cases "batch_inputs np s idx")
  case (Inl e)
  then show ?thesis by (simp add: getitem_body_def)
next
  case (Inr xs)
  obtain x1 x2 where xs: "xs = (x1, x2)" by (cases xs)
  with Inr batch_inputs_second[of np s idx x1 x2] assms obtain t2 where "x2 = Some t2" by auto
  with Inr xs show ?thesis
    by (cases "batch_targets s idx") (simp_all add: getitem_body_def Let_def)
qed

lemma two_leg_never_returns:
  assumes "imgfilenames2 s \<noteq> []"
  shows "fst (getitem np s g idx) \<noteq> Inr b"
proof -
  have "imgfilenames2 (fst (snd (getitem np s g idx))) \<noteq> []"
    using assms by (simp add: getitem_state)
  then show ?thesis unfolding getitem_result by (rule getitem_body_two_leg)
qed

lemma single_leg_returns:
  assumes "imgfilenames2 s = []" and "fst (getitem np s g idx) = Inr b"
  shows "\<exists>x1 y. b = Batch [x1] (Peaks y) \<and> batch_targets s idx = Inr y"
proof -
  let ?s = "fst (snd (getitem np s g idx))"
  have e: "imgfilenames2 ?s = []" using assms(1) by (simp add: getitem_state)
  from assms(2) have r: "getitem_body np ?s idx = Inr b" by (simp add: getitem_result)
  then obtain xs where xs: "batch_inputs np ?s idx = Inr xs"
    by (cases "batch_inputs np ?s idx") (simp_all add: getitem_body_def)
  obtain x1 x2 where x: "xs = (x1, x2)" by (cases xs)
  with xs e batch_inputs_second[of np ?s idx x1 x2] have n: "x2 = None" by simp
  from r xs x obtain y where y: "batch_targets ?s idx = Inr y"
    by (cases "batch_targets ?s idx") (simp_all add: getitem_body_def)
  from r xs x n y have "b = Batch [x1] (Peaks y)" by (simp add: getitem_body_def)
  with y show ?thesis by (auto simp add: batch_targets_after)
qed

text \<open>
  Claim C1. The source hands \<open>idx * size + i\<close> to the second leg, where \<open>size\<close> is the size of
  the current batch, not \<open>batch_size\<close>. For five pairs in batches of two, the last batch
  (\<open>idx = 2\<close>, \<open>size = 1\<close>) rolls its only sample by \<open>schedule[2] = 0\<close>, while
  \<open>schedule[idx * batch_size + 0] = schedule[4] = 4\<close>.
\<close>

theorem short_batch_rotation_index:
  "batch_size (ex_pair 1) = 2
   \<and> bounds (ex_pair 1) 2 = (5, 1)
   \<and> random_rotate (ex_pair 1) = Some [3, 0, 0, 0, 4]
   \<and> batch_inputs ex_env (ex_pair 1) 2
       = Inr (([1, 1, 4, 4],
               [Write 0 (Chan 0) ''depth a4'', Write 0 (ChanRange 1 4) ''normal a4'']),
              Some ([1, 1, 4, 4],
               [Write 0 (Chan 0) ''depth b4'', Write 0 (ChanRange 1 4) ''normal b4'', Roll 0 0]))
   \<and> lookup_shift (ex_pair 1) (2 * 1 + 0) = Inr 0
   \<and> lookup_shift (ex_pair 1) (2 * batch_size (ex_pair 1) + 0) = Inr 4"
  by code_simp

text \<open>
  Claim C2. In two-leg mode both tensors and the target rows are built, and the return
  statement then calls \<open>np.hstack\<close> with two positional arguments: the call raises
  TypeError and nothing is returned.
\<close>

theorem two_leg_return_raises:
  "imgfilenames2 (ex_pair 0) \<noteq> []
   \<and> batch_inputs ex_env (ex_pair 0) 0
       = Inr (([2, 1, 4, 4],
               [Write 0 (Chan 0) ''depth a0'', Write 0 (ChanRange 1 4) ''normal a0'',
                Write 1 (Chan 0) ''depth a1'', Write 1 (ChanRange 1 4) ''normal a1'']),
              Some ([2, 1, 4, 4],
               [Write 0 (Chan 0) ''depth b0'', Write 0 (ChanRange 1 4) ''normal b0'',
                Write 1 (Chan 0) ''depth b1'', Write 1 (ChanRange 1 4) ''normal b1'']))
   \<and> batch_targets (ex_pair 0) 0
       = Inr [[0, 0, 0, 7 / 10, 0, 0, 0, 0, 0, 0], [0, 1 / 5, 0, 0, 0, 0, 0, 0, 0, 0]]
   \<and> np_hstack [slice (overlap (ex_pair 0)) 0 2, slice (function_angle (ex_pair 0)) 0 2]
       = Inl TypeError
   \<and> fst (getitem ex_env (ex_pair 0) ex_gen 0) = Inl TypeError"
  by code_simp

end
